theory Spec2Isabelle
  imports Main
begin

section \<open>Python strings\<close>

text \<open>
  A Python \<open>str\<close> is modelled as a \<open>string\<close>, a list of characters with the code
  points below 256.  \<open>is_space\<close> is \<open>str.isspace\<close> on that range: the characters
  \<open>\t \n \v \f \r\<close>, the separators \<open>0x1c .. 0x1f\<close>, the blank, the next-line
  character \<open>0x85\<close> and the no-break space \<open>0xa0\<close>.
\<close>

definition is_space :: "char \<Rightarrow> bool" where
  "is_space c \<longleftrightarrow>
     c \<in> set [CHR 0x09, CHR 0x0A, CHR 0x0B, CHR 0x0C, CHR 0x0D,
              CHR 0x1C, CHR 0x1D, CHR 0x1E, CHR 0x1F, CHR 0x20, CHR 0x85, CHR 0xA0]"

text \<open>\<open>s.strip()\<close>: whitespace removed at both ends.\<close>

definition strip :: "string \<Rightarrow> string" where
  "strip s = rev (dropWhile is_space (rev (dropWhile is_space s)))"

text \<open>\<open>s.startswith(p)\<close>.\<close>

definition startswith :: "string \<Rightarrow> string \<Rightarrow> bool" where
  "startswith p s \<longleftrightarrow> take (length p) s = p"

text \<open>
  \<open>s.split()\<close> with no argument: the maximal runs of non-whitespace characters, in order.
  \<open>cur\<close> holds the characters of the run being read, last one first.
\<close>

fun split_run :: "string \<Rightarrow> string \<Rightarrow> string list" where
  "split_run cur [] = (if cur = [] then [] else [rev cur])"
| "split_run cur (c # cs) =
     (if is_space c
      then (if cur = [] then split_run [] cs else rev cur # split_run [] cs)
      else split_run (c # cur) cs)"

definition str_split :: "string \<Rightarrow> string list" where
  "str_split s = split_run [] s"

definition newline :: char where
  "newline = CHR 0x0A"

definition carriage_return :: char where
  "carriage_return = CHR 0x0D"

definition dquote :: char where
  "dquote = CHR 0x22"

definition slash :: char where
  "slash = CHR ''/''"

text \<open>\<open>sep.join(xs)\<close>.\<close>

fun str_join :: "string \<Rightarrow> string list \<Rightarrow> string" where
  "str_join sep [] = []"
| "str_join sep [x] = x"
| "str_join sep (x # y # ys) = x @ sep @ str_join sep (y # ys)"

text \<open>\<open>s.split(sep)\<close> for a one-character separator: empty pieces are kept.\<close>

fun split_sep :: "char \<Rightarrow> string \<Rightarrow> string list" where
  "split_sep sep [] = [[]]"
| "split_sep sep (c # cs) =
     (if c = sep then [] # split_sep sep cs
      else (case split_sep sep cs of
              [] \<Rightarrow> [[c]]
            | x # xs \<Rightarrow> (c # x) # xs))"

text \<open>\<open>sub in s\<close>.\<close>

fun contains :: "string \<Rightarrow> string \<Rightarrow> bool" where
  "contains sub [] = (sub = [])"
| "contains sub (c # cs) = (startswith sub (c # cs) \<or> contains sub cs)"

text \<open>
  Reading a text file: \<open>open(path)\<close> translates \<open>\r\n\<close> and a lone \<open>\r\<close> to \<open>\n\<close>, and
  \<open>readlines()\<close> cuts after each \<open>\n\<close>, which stays at the end of its line.
\<close>

fun universal_newlines :: "string \<Rightarrow> string" where
  "universal_newlines [] = []"
| "universal_newlines [c] = (if c = carriage_return then [newline] else [c])"
| "universal_newlines (c # d # ds) =
     (if c = carriage_return
      then (if d = newline then newline # universal_newlines ds
            else newline # universal_newlines (d # ds))
      else c # universal_newlines (d # ds))"

fun lines_from :: "string \<Rightarrow> string \<Rightarrow> string list" where
  "lines_from cur [] = (if cur = [] then [] else [rev cur])"
| "lines_from cur (c # cs) =
     (if c = newline then rev (c # cur) # lines_from [] cs
      else lines_from (c # cur) cs)"

definition readlines :: "string \<Rightarrow> string list" where
  "readlines text = lines_from [] (universal_newlines text)"

section \<open>Exceptions\<close>

text \<open>The exceptions the modelled code can raise; none of them is caught in the module.\<close>

datatype error =
    IndexError | KeyError | TypeError | AttributeError | ValueError
  | FileNotFoundError | IsADirectoryError | NotADirectoryError

section \<open>POSIX paths\<close>

text \<open>The functions of \<open>os.path\<close> the module uses, in their POSIX version.\<close>

definition isabs :: "string \<Rightarrow> bool" where
  "isabs p = startswith ''/'' p"

text \<open>\<open>path.join(a, b)\<close>; a call with three arguments joins from the left.\<close>

definition join :: "string \<Rightarrow> string \<Rightarrow> string" where
  "join a b =
     (if startswith ''/'' b then b
      else if a = [] \<or> last a = slash then a @ b
      else a @ ''/'' @ b)"

text \<open>
  The loop of \<open>path.normpath\<close> over the pieces between slashes: empty pieces and \<open>.\<close> are
  skipped, \<open>..\<close> removes the piece before it where there is one to remove.
\<close>

fun norm_comps :: "nat \<Rightarrow> string list \<Rightarrow> string list \<Rightarrow> string list" where
  "norm_comps initial_slashes [] new_comps = new_comps"
| "norm_comps initial_slashes (component # comps) new_comps =
     (if component = [] \<or> component = ''.'' then norm_comps initial_slashes comps new_comps
      else if component \<noteq> ''..'' \<or> (initial_slashes = 0 \<and> new_comps = [])
                \<or> (new_comps \<noteq> [] \<and> last new_comps = ''..'')
      then norm_comps initial_slashes comps (new_comps @ [component])
      else if new_comps \<noteq> [] then norm_comps initial_slashes comps (butlast new_comps)
      else norm_comps initial_slashes comps new_comps)"

definition normpath :: "string \<Rightarrow> string" where
  "normpath p =
     (if p = [] then ''.''
      else
        let initial_slashes =
              (if startswith ''/'' p
               then (if startswith ''//'' p \<and> \<not> startswith ''///'' p then 2 else 1)
               else (0::nat));
            comps = norm_comps initial_slashes (split_sep slash p) [];
            path = replicate initial_slashes slash @ str_join ''/'' comps
        in if path = [] then ''.'' else path)"

text \<open>\<open>path.dirname(p)\<close>: everything up to the last slash, without trailing slashes
  unless it consists of slashes only.\<close>

definition dirname :: "string \<Rightarrow> string" where
  "dirname p =
     (let head = rev (dropWhile (\<lambda>c. c \<noteq> slash) (rev p))
      in if head \<noteq> [] \<and> head \<noteq> replicate (length head) slash
         then rev (dropWhile (\<lambda>c. c = slash) (rev head))
         else head)"

section \<open>The file system and the log\<close>

text \<open>
  The world the module acts on: the regular files (content and modification time), the
  directories, a clock, and the records handed to the module's logger.  A write stamps the
  file with a fresh time, so the clock counts the writes.  Reading fails only where no file
  is, writing where the file cannot be created; permissions are not modelled.
\<close>

record file_entry =
  content :: string
  mtime :: nat

datatype level = DEBUG | INFO | WARNING | ERROR

record world =
  files :: "string \<Rightarrow> file_entry option"
  dirs :: "string set"
  now :: nat
  log :: "(level \<times> string) list"

definition log_msg :: "level \<Rightarrow> string \<Rightarrow> world \<Rightarrow> world" where
  "log_msg lvl msg w = w\<lparr>log := log w @ [(lvl, msg)]\<rparr>"

text \<open>\<open>path.exists\<close>.\<close>

definition path_exists :: "world \<Rightarrow> string \<Rightarrow> bool" where
  "path_exists w p \<longleftrightarrow> files w p \<noteq> None \<or> p \<in> dirs w"

text \<open>
  \<open>f = open(p, 'w'); f.seek(0); f.write(text); f.close()\<close>: the file is replaced as a
  whole.  The file cannot be opened where the path is empty, names a directory, or lies in
  a directory that does not exist; a relative path without a directory part lies in the
  current directory, which exists.
\<close>

definition write_file :: "world \<Rightarrow> string \<Rightarrow> string \<Rightarrow> error + world" where
  "write_file w p text =
     (if p = [] then Inl FileNotFoundError
      else if p \<in> dirs w \<or> last p = slash then Inl IsADirectoryError
      else if files w (dirname p) \<noteq> None then Inl NotADirectoryError
      else if dirname p \<noteq> [] \<and> dirname p \<notin> dirs w then Inl FileNotFoundError
      else Inr (w\<lparr>files := (files w)(p \<mapsto> \<lparr>content = text, mtime = Suc (now w)\<rparr>),
                  now := Suc (now w)\<rparr>))"

text \<open>The paths at which \<open>open(p, 'w')\<close> succeeds.\<close>

definition writable :: "world \<Rightarrow> string \<Rightarrow> bool" where
  "writable w p \<longleftrightarrow>
     p \<noteq> [] \<and> p \<notin> dirs w \<and> last p \<noteq> slash \<and> files w (dirname p) = None
     \<and> (dirname p = [] \<or> dirname p \<in> dirs w)"

text \<open>\<open>os.makedirs\<close>.\<close>

definition makedirs :: "world \<Rightarrow> string \<Rightarrow> world" where
  "makedirs w d = w\<lparr>dirs := insert d (dirs w), now := Suc (now w)\<rparr>"

section \<open>File references\<close>

text \<open>
  Modelled from the spec: the class \<open>File\<close> of \<open>plugin/tools.py\<close>, which is not among
  the sources.  Section 3 gives a file reference an optional absolute path and a recorded
  last-modified timestamp, with "unset path implies not loaded"; section 4.1 gives its
  operations.  The timestamp starts at 0, so that the first query of a new reference
  reports the file as modified.
\<close>

record file_ref =
  full_path :: "string option"
  last_seen :: nat

text \<open>Modelled from the spec: \<open>File()\<close>, the empty reference the orchestrator starts
  with.\<close>

definition File_empty :: file_ref where
  "File_empty = \<lparr>full_path = None, last_seen = 0\<rparr>"

text \<open>
  Modelled from the spec: \<open>File(path)\<close>, the reference populated by a direct path.  The
  spec does not say what it is where no file is at \<open>path\<close>; the reference stays unset
  there, the reading under which an absent flag-list file gives the empty flag
  contribution of section 7.
\<close>

definition File_at :: "world \<Rightarrow> string \<Rightarrow> file_ref" where
  "File_at w p =
     (if files w p \<noteq> None then \<lparr>full_path = Some p, last_seen = 0\<rparr> else File_empty)"

text \<open>Modelled from the spec: "\<open>loaded()\<close> reports whether a path is bound".\<close>

definition loaded :: "file_ref \<Rightarrow> bool" where
  "loaded f \<longleftrightarrow> full_path f \<noteq> None"

text \<open>Modelled from the spec: "\<open>folder()\<close> returns the containing directory".\<close>

definition folder :: "file_ref \<Rightarrow> string option" where
  "folder f = map_option dirname (full_path f)"

text \<open>
  Modelled from the spec: "\<open>was_modified()\<close> returns true exactly once per actual
  filesystem-timestamp change since last observation (and updates the recorded timestamp
  as a side effect)"; the change that counts is an advance of the timestamp (section 4.6).
  An unset reference, and one whose file is gone, report no change.
\<close>

definition was_modified :: "world \<Rightarrow> file_ref \<Rightarrow> bool \<times> file_ref" where
  "was_modified w f =
     (case full_path f of
        None \<Rightarrow> (False, f)
      | Some p \<Rightarrow>
          (case files w p of
             None \<Rightarrow> (False, f)
           | Some e \<Rightarrow>
               if last_seen f < mtime e then (True, f\<lparr>last_seen := mtime e\<rparr>)
               else (False, f)))"

text \<open>
  Modelled from the spec: \<open>File.search\<close> "walks upward from \<open>from_folder\<close> toward
  \<open>to_folder\<close> (inclusive boundary, never above it)".  \<open>ancestors d\<close> is \<open>d\<close> followed by
  its parents up to the root; \<open>scope_dirs\<close> cuts the walk after \<open>to_folder\<close>, and is empty
  when the walk does not pass through \<open>to_folder\<close> (a search outside valid bounds).
\<close>

function ancestors :: "string \<Rightarrow> string list" where
  "ancestors d = (if dirname d = d then [d] else d # ancestors (dirname d))"
  by pat_completeness auto
termination
proof (relation "measure length")
  show "wf (measure length)" by simp
next
  fix d :: string
  assume neq: "dirname d \<noteq> d"
  define head where "head = rev (dropWhile (\<lambda>c. c \<noteq> slash) (rev d))"
  have d_split: "d = head @ rev (takeWhile (\<lambda>c. c \<noteq> slash) (rev d))"
    unfolding head_def
    by (metis rev_append rev_rev_ident takeWhile_dropWhile_id)
  have head_split: "head = rev (dropWhile (\<lambda>c. c = slash) (rev head))
                            @ rev (takeWhile (\<lambda>c. c = slash) (rev head))"
    by (metis rev_append rev_rev_ident takeWhile_dropWhile_id)
  have "\<exists>zs. d = dirname d @ zs"
  proof (cases "head \<noteq> [] \<and> head \<noteq> replicate (length head) slash")
    case True
    then have "dirname d = rev (dropWhile (\<lambda>c. c = slash) (rev head))"
      by (simp add: dirname_def head_def Let_def)
    with d_split head_split show ?thesis
      by (metis append.assoc)
  next
    case False
    then have "dirname d = head"
      by (auto simp: dirname_def head_def Let_def)
    with d_split show ?thesis by metis
  qed
  then obtain zs where zs: "d = dirname d @ zs" ..
  with neq have "zs \<noteq> []" by auto
  with zs have "length (dirname d) < length d"
    by (metis length_append length_greater_0_conv less_add_same_cancel1)
  then show "(dirname d, d) \<in> measure length" by simp
qed

definition scope_dirs :: "string \<Rightarrow> string \<Rightarrow> string list" where
  "scope_dirs from_folder to_folder =
     (let chain = ancestors from_folder
      in if to_folder \<in> set chain
         then takeWhile (\<lambda>d. d \<noteq> to_folder) chain @ [to_folder]
         else [])"

text \<open>
  Modelled from the spec: at each level the search checks "for a file named \<open>name\<close>; if
  \<open>search_content\<close> is given, the candidate file's contents must contain that substring".
\<close>

definition candidate :: "world \<Rightarrow> string option \<Rightarrow> string \<Rightarrow> bool" where
  "candidate w search_content p =
     (case files w p of
        None \<Rightarrow> False
      | Some e \<Rightarrow>
          (case search_content of None \<Rightarrow> True | Some sub \<Rightarrow> contains sub (content e)))"

text \<open>
  Modelled from the spec: \<open>File.search\<close> "returns the first match as a new File Reference,
  or an empty one if none found within bounds"; a scope with an unset bound has no
  directory within bounds.
\<close>

definition File_search ::
    "world \<Rightarrow> string \<Rightarrow> string option \<Rightarrow> string option \<Rightarrow> string option \<Rightarrow> file_ref" where
  "File_search w file_name from_folder to_folder search_content =
     (case (from_folder, to_folder) of
        (Some f, Some t) \<Rightarrow>
          (case find (\<lambda>d. candidate w search_content (join d file_name)) (scope_dirs f t) of
             None \<Rightarrow> File_empty
           | Some d \<Rightarrow> \<lparr>full_path = Some (join d file_name), last_seen = 0\<rparr>)
      | _ \<Rightarrow> File_empty)"

section \<open>Python sets of flags\<close>

text \<open>
  A Python \<open>set\<close> of strings is modelled as a list without duplicates, which fixes one of
  the iteration orders the set may have.  Statements about sets of flags are made on
  \<open>set\<close> of the list and so do not depend on the order chosen.
\<close>

definition set_add :: "string \<Rightarrow> string list \<Rightarrow> string list" where
  "set_add x s = (if x \<in> set s then s else s @ [x])"

definition set_of_list :: "string list \<Rightarrow> string list" where
  "set_of_list xs = foldl (\<lambda>s x. set_add x s) [] xs"

definition set_union :: "string list \<Rightarrow> string list \<Rightarrow> string list" where
  "set_union a b = foldl (\<lambda>s x. set_add x s) a b"

definition symmetric_difference :: "string list \<Rightarrow> string list \<Rightarrow> string list" where
  "symmetric_difference a b =
     filter (\<lambda>x. x \<notin> set b) a @ filter (\<lambda>x. x \<notin> set a) b"

section \<open>Parsed JSON\<close>

text \<open>
  The value \<open>json.load\<close> returns.  A JSON object is the list of its items; numbers are
  restricted to integers.
\<close>

datatype json =
    JNull | JBool bool | JNum int | JStr string | JArr "json list" | JObj "(string \<times> json) list"

text \<open>Python truthiness of a parsed value, as tested by \<open>if not data\<close>.\<close>

fun truthy :: "json \<Rightarrow> bool" where
  "truthy JNull = False"
| "truthy (JBool b) = b"
| "truthy (JNum n) = (n \<noteq> 0)"
| "truthy (JStr s) = (s \<noteq> [])"
| "truthy (JArr xs) = (xs \<noteq> [])"
| "truthy (JObj kvs) = (kvs \<noteq> [])"

text \<open>
  \<open>for entry in data\<close>: a list yields its elements, a dict its keys, a string its
  characters; a number or \<open>True\<close> is not iterable.
\<close>

fun iterate :: "json \<Rightarrow> error + json list" where
  "iterate (JArr xs) = Inr xs"
| "iterate (JObj kvs) = Inr (map (\<lambda>kv. JStr (fst kv)) kvs)"
| "iterate (JStr s) = Inr (map (\<lambda>c. JStr [c]) s)"
| "iterate _ = Inl TypeError"

text \<open>\<open>entry['command']\<close>.\<close>

fun subscript_command :: "json \<Rightarrow> error + json" where
  "subscript_command (JObj kvs) =
     (case map_of kvs ''command'' of None \<Rightarrow> Inl KeyError | Some v \<Rightarrow> Inr v)"
| "subscript_command _ = Inl TypeError"

text \<open>\<open>command.split()\<close>: only a string has the method.\<close>

fun command_split :: "json \<Rightarrow> error + string list" where
  "command_split (JStr s) = Inr (str_split s)"
| "command_split _ = Inl AttributeError"

section \<open>Flags from the compilation database\<close>

text \<open>
  The inner loop of \<open>flags_from_database\<close> (lines 207-214) over
  \<open>enumerate(all_command_parts)\<close>.  The first argument is the suffix of
  \<open>all_command_parts\<close> that starts at index \<open>i\<close>, so \<open>all_command_parts[i + 1]\<close> is the
  head of the rest and raises \<open>IndexError\<close> when the rest is empty.
\<close>

fun scan_parts :: "string list \<Rightarrow> string list \<Rightarrow> error + string list" where
  "scan_parts [] flags_set = Inr flags_set"
| "scan_parts (part # rest) flags_set =
     (if startswith ''-I'' part \<or> startswith ''-D'' part
      then scan_parts rest (set_add (strip part) flags_set)
      else if startswith ''-isystem'' part
      then (case rest of
              [] \<Rightarrow> Inl IndexError
            | nxt # _ \<Rightarrow> scan_parts rest (set_add (strip (part @ '' '' @ nxt)) flags_set))
      else scan_parts rest flags_set)"

text \<open>The outer loop (lines 204-206) over the entries of the database.\<close>

fun scan_entries :: "json list \<Rightarrow> string list \<Rightarrow> error + string list" where
  "scan_entries [] flags_set = Inr flags_set"
| "scan_entries (entry # entries) flags_set =
     (case subscript_command entry of
        Inl e \<Rightarrow> Inl e
      | Inr command \<Rightarrow>
          (case command_split command of
             Inl e \<Rightarrow> Inl e
           | Inr all_command_parts \<Rightarrow>
               (case scan_parts all_command_parts flags_set of
                  Inl e \<Rightarrow> Inl e
                | Inr flags_set' \<Rightarrow> scan_entries entries flags_set')))"

text \<open>
  Lines 201-216 of \<open>flags_from_database\<close>, on the value \<open>json.load\<close> returned:
  \<open>None\<close> for a falsy value, otherwise the set of flags.
\<close>

definition flags_from_data :: "json \<Rightarrow> error + string list option" where
  "flags_from_data data =
     (if \<not> truthy data then Inr None
      else (case iterate data of
              Inl e \<Rightarrow> Inl e
            | Inr entries \<Rightarrow>
                (case scan_entries entries [] of
                   Inl e \<Rightarrow> Inl e
                 | Inr flags_set \<Rightarrow> Inr (Some flags_set))))"

section \<open>Parsing the flag-list file\<close>

text \<open>\<open>mask.format(a, b)\<close> with \<open>mask = '{}{}'\<close>, or \<open>'{} "{}"'\<close> when includes are
  separated.\<close>

definition mask_format :: "bool \<Rightarrow> string \<Rightarrow> string \<Rightarrow> string" where
  "mask_format separate_includes a b =
     (if separate_includes then a @ '' '' @ [dquote] @ b @ [dquote] else a @ b)"

text \<open>The loop of \<open>flags_from_clang_file\<close> over the lines (lines 244-263), appending to
  \<open>flags\<close>.\<close>

fun parse_lines :: "string \<Rightarrow> bool \<Rightarrow> string list \<Rightarrow> string list \<Rightarrow> string list" where
  "parse_lines dir separate_includes [] flags = flags"
| "parse_lines dir separate_includes (line # rest) flags =
     (if startswith ''-D'' line
      then parse_lines dir separate_includes rest (flags @ [strip line])
      else if startswith ''-I'' line
      then (let path_to_add = strip (drop 2 line)
            in if isabs path_to_add
               then parse_lines dir separate_includes rest
                      (flags @ [mask_format separate_includes ''-I'' (normpath path_to_add)])
               else parse_lines dir separate_includes rest
                      (flags @ [mask_format separate_includes ''-I'' (join dir path_to_add)]))
      else if startswith ''-isystem'' line
      then (let path_to_add = strip (drop 8 line)
            in if isabs path_to_add
               then parse_lines dir separate_includes rest
                      (flags @ [strip (mask_format separate_includes ''-isystem''
                                         (normpath path_to_add))])
               else parse_lines dir separate_includes rest
                      (flags @ [strip (mask_format separate_includes ''-isystem''
                                         (join dir path_to_add))]))
      else parse_lines dir separate_includes rest flags)"

text \<open>
  \<open>flags_from_clang_file(file, separate_includes)\<close>.  The result is the list of flags and
  the world, which differs from the given one by the log records only.
\<close>

definition flags_from_clang_file ::
    "world \<Rightarrow> file_ref \<Rightarrow> bool \<Rightarrow> error + (string list \<times> world)" where
  "flags_from_clang_file w file separate_includes =
     (if \<not> loaded file
      then Inr ([], log_msg ERROR '' cannot get flags from clang_complete_file. No file.'' w)
      else
        (case (folder file, full_path file) of
           (Some dir, Some p) \<Rightarrow>
             (case files w p of
                None \<Rightarrow> Inl FileNotFoundError
              | Some e \<Rightarrow>
                  Inr (parse_lines dir separate_includes (readlines (content e)) [],
                       log_msg DEBUG '' .clang_complete contains flags: %s'' w))
         | _ \<Rightarrow> Inl TypeError))"

section \<open>Writing the flag-list file\<close>

text \<open>The answers of \<open>sublime.yes_no_cancel_dialog\<close>.\<close>

datatype dialog = DIALOG_CANCEL | DIALOG_YES | DIALOG_NO

text \<open>\<open>get_flags_strategy(strategy)\<close>; \<open>user_pick\<close> is the answer the user gives when
  asked.\<close>

definition get_flags_strategy :: "dialog \<Rightarrow> string \<Rightarrow> string" where
  "get_flags_strategy user_pick strategy =
     (if strategy = ''ask''
      then (case user_pick of
              DIALOG_YES \<Rightarrow> ''merge''
            | DIALOG_NO \<Rightarrow> ''overwrite''
            | DIALOG_CANCEL \<Rightarrow> ''keep_old'')
      else strategy)"

text \<open>\<open>'\n'.join(new_flags) + '\n'\<close>.\<close>

definition flags_text :: "string list \<Rightarrow> string" where
  "flags_text new_flags = str_join [newline] new_flags @ [newline]"

text \<open>\<open>write_flags_to_file(new_flags, file_path, strategy)\<close>.\<close>

definition write_flags_to_file ::
    "dialog \<Rightarrow> world \<Rightarrow> string list \<Rightarrow> string \<Rightarrow> string \<Rightarrow> error + world" where
  "write_flags_to_file user_pick w new_flags file_path strategy =
     (if path_exists w file_path
      then
        (let w1 = log_msg DEBUG '' path already exists'' w;
             flag_strategy = get_flags_strategy user_pick strategy;
             w2 = log_msg DEBUG '' picked '%s' strategy.'' w1
         in if flag_strategy = ''keep_old'' then Inr w2
            else if flag_strategy = ''merge''
            then (case flags_from_clang_file w2 (File_at w2 file_path) False of
                    Inl e \<Rightarrow> Inl e
                  | Inr (curr_flags, w3) \<Rightarrow>
                      write_file w3 file_path
                        (flags_text (set_union new_flags (set_of_list curr_flags))))
            else write_file w2 file_path (flags_text new_flags))
      else write_file w file_path (flags_text new_flags))"

section \<open>The external collaborators\<close>

text \<open>
  What the module takes from outside: the directory \<open>Tools.get_temp_dir()\<close> returns,
  \<open>hashlib.md5(...).hexdigest()\<close>, the external build tool, \<open>json.load\<close> (\<open>None\<close> where it
  raises \<open>ValueError\<close>) and the user's answer to the dialog.  The build tool is run with a
  command line and a working directory on the files of the world; it returns its exit
  code, its output and the files as it leaves them.
\<close>

record process_result =
  returncode :: int
  output_text :: string
  files_after :: "string \<Rightarrow> file_entry option"

record env =
  get_temp_dir :: string
  md5_hexdigest :: "string \<Rightarrow> string"
  check_output :: "string \<Rightarrow> string \<Rightarrow> (string \<Rightarrow> file_entry option) \<Rightarrow> process_result"
  json_load :: "string \<Rightarrow> json option"
  user_pick :: dialog

definition CMAKE_FILE_NAME :: string where
  "CMAKE_FILE_NAME = ''CMakeLists.txt''"

definition CMAKE_DB_FILE_NAME :: string where
  "CMAKE_DB_FILE_NAME = ''compile_commands.json''"

definition CLANG_COMPLETE_FILE_NAME :: string where
  "CLANG_COMPLETE_FILE_NAME = ''.clang_complete''"

definition cmake_mask :: "string \<Rightarrow> string" where
  "cmake_mask p = ''cmake -DCMAKE_EXPORT_COMPILE_COMMANDS=ON '' @ p"

section \<open>Running the build tool\<close>

text \<open>
  \<open>compile_cmake(cmake_file)\<close>: \<open>None\<close> when the tool left no database, otherwise the
  reference \<open>File(database_path)\<close>.  A non-zero exit code (\<open>CalledProcessError\<close>) is caught
  and logged.
\<close>

definition compile_cmake :: "env \<Rightarrow> world \<Rightarrow> file_ref \<Rightarrow> error + (file_ref option \<times> world)" where
  "compile_cmake ev w cmake_file =
     (case (folder cmake_file, full_path cmake_file) of
        (Some dir, Some p) \<Rightarrow>
          (let cmake_cmd = cmake_mask dir;
               unique_proj_str = md5_hexdigest ev p;
               tempdir = join (join (get_temp_dir ev) ''cmake_builds'') unique_proj_str;
               w1 = (if \<not> path_exists w tempdir then makedirs w tempdir else w);
               r = check_output ev cmake_cmd tempdir (files w1);
               w2 = w1\<lparr>files := files_after r\<rparr>;
               w3 = (if returncode r \<noteq> 0
                     then log_msg INFO ('' clang process output: '' @ [newline] @ ''%s'')
                            (log_msg INFO ('' clang process finished with code: '' @ [newline] @ ''%s'') w2)
                     else w2);
               w4 = log_msg DEBUG ('' cmake produced output: '' @ [newline] @ ''%s'') w3;
               database_path = join tempdir CMAKE_DB_FILE_NAME
           in if \<not> path_exists w4 database_path
              then Inr (None,
                        log_msg ERROR '' cmake has finished, but no compilation database.'' w4)
              else Inr (Some (File_at w4 database_path), w4))
      | _ \<Rightarrow> Inl TypeError)"

text \<open>
  \<open>flags_from_database(database_file)\<close>: the file is opened and handed to \<open>json.load\<close>,
  whose \<open>ValueError\<close> on a text that is not JSON is not caught.
\<close>

definition flags_from_database ::
    "env \<Rightarrow> world \<Rightarrow> file_ref \<Rightarrow> error + (string list option \<times> world)" where
  "flags_from_database ev w database_file =
     (case full_path database_file of
        None \<Rightarrow> Inl TypeError
      | Some p \<Rightarrow>
          (case files w p of
             None \<Rightarrow> Inl FileNotFoundError
           | Some e \<Rightarrow>
               (case json_load ev (content e) of
                  None \<Rightarrow> Inl ValueError
                | Some data \<Rightarrow>
                    (case flags_from_data data of
                       Inl err \<Rightarrow> Inl err
                     | Inr None \<Rightarrow> Inr (None, w)
                     | Inr (Some flags_set) \<Rightarrow>
                         Inr (Some flags_set, log_msg DEBUG '' flags set: %s'' w)))))"

section \<open>The flags manager\<close>

text \<open>\<open>SearchScope\<close>: a bound that was not given is \<open>None\<close>.\<close>

record search_scope =
  from_folder :: "string option"
  to_folder :: "string option"

text \<open>Truthiness of a bound, as \<open>valid\<close> tests it: neither \<open>None\<close> nor the empty
  string.\<close>

definition is_set :: "string option \<Rightarrow> bool" where
  "is_set b = (case b of None \<Rightarrow> False | Some s \<Rightarrow> s \<noteq> [])"

definition valid :: "search_scope \<Rightarrow> bool" where
  "valid s = (if is_set (from_folder s) \<and> is_set (to_folder s) then True else False)"

record flags_manager =
  cmake_file :: file_ref
  clang_complete_file :: file_ref
  flags :: "string list"
  search_scope :: search_scope
  use_cmake :: bool
  flags_update_strategy :: string

text \<open>
  \<open>FlagsManager.__init__\<close>.  The fields the constructor does not assign keep the values of
  the class attributes.  The logging call never raises into its caller.
\<close>

definition FlagsManager_init ::
    "world \<Rightarrow> bool \<Rightarrow> string \<Rightarrow> search_scope \<Rightarrow> flags_manager \<times> world" where
  "FlagsManager_init w use_cmake_arg flags_update_strategy_arg search_scope_arg =
     (let w1 = (if \<not> valid search_scope_arg
                then log_msg ERROR '' search scope is wrong.'' w else w)
      in (\<lparr>cmake_file = File_empty,
           clang_complete_file = File_empty,
           flags = [],
           search_scope = search_scope_arg,
           use_cmake = use_cmake_arg,
           flags_update_strategy = flags_update_strategy_arg\<rparr>, w1))"

text \<open>Lines 66-73 of \<open>get_flags\<close>: the search for the build description.\<close>

definition find_cmake_file :: "world \<Rightarrow> flags_manager \<Rightarrow> flags_manager \<times> world" where
  "find_cmake_file w m =
     (if use_cmake m \<and> \<not> loaded (cmake_file m)
      then (let w1 = log_msg DEBUG '' cmake file not loaded yet. Searching for one...'' w
            in (m\<lparr>cmake_file :=
                     File_search w1 CMAKE_FILE_NAME
                       (from_folder (search_scope m)) (to_folder (search_scope m))
                       (Some ''project'')\<rparr>, w1))
      else (m, w))"

text \<open>
  Lines 87-101 of \<open>get_flags\<close>: the change-detection gate.  The flags of the database are
  compared with those of the flag-list file at \<open>new_clang_file_path\<close>, which is written only
  when they differ.  \<open>flags_from_database\<close> may have returned \<open>None\<close>, on which
  \<open>symmetric_difference\<close> is an \<open>AttributeError\<close>.
\<close>

definition reconcile ::
    "env \<Rightarrow> world \<Rightarrow> string list option \<Rightarrow> string \<Rightarrow> string \<Rightarrow> error + world" where
  "reconcile ev w new_flags new_clang_file_path strategy =
     (case flags_from_clang_file w (File_at w new_clang_file_path) False of
        Inl e \<Rightarrow> Inl e
      | Inr (curr_list, w1) \<Rightarrow>
          (let curr_flags = set_of_list curr_list
           in case new_flags of
                None \<Rightarrow> Inl AttributeError
              | Some new_flags \<Rightarrow>
                  if length (symmetric_difference new_flags curr_flags) > 0
                  then (case write_flags_to_file (user_pick ev) w1 new_flags
                               new_clang_file_path strategy of
                          Inl e \<Rightarrow> Inl e
                        | Inr w2 \<Rightarrow>
                            Inr (log_msg DEBUG
                                   (CHR 0x27 # ''%s' is not equal to '%s' by %s so update'') w2))
                  else Inr (log_msg DEBUG
                         '' the flags have not changed so we don't modify the .clang_complete file''
                         w1)))"

text \<open>
  Lines 75-103 of \<open>get_flags\<close>: when the build description was modified, the build tool
  is run and the flag-list file beside the build description is brought up to date.
\<close>

definition update_clang_file ::
    "env \<Rightarrow> world \<Rightarrow> flags_manager \<Rightarrow> error + (flags_manager \<times> world)" where
  "update_clang_file ev w m =
     (if \<not> use_cmake m then Inr (m, w)
      else
        (case was_modified w (cmake_file m) of
           (modified, f) \<Rightarrow>
             (let m1 = m\<lparr>cmake_file := f\<rparr>
              in if \<not> modified then Inr (m1, w)
                 else
                   (case compile_cmake ev
                           (log_msg DEBUG
                              '' CMakeLists.txt was modified. Generate new .clang_complete'' w)
                           f of
                      Inl e \<Rightarrow> Inl e
                    | Inr (None, w2) \<Rightarrow>
                        Inr (m1, log_msg WARNING
                                   '' could not get compilation database from cmake'' w2)
                    | Inr (Some compilation_db, w2) \<Rightarrow>
                        (case flags_from_database ev w2 compilation_db of
                           Inl e \<Rightarrow> Inl e
                         | Inr (new_flags, w3) \<Rightarrow>
                             (case folder f of
                                None \<Rightarrow> Inl TypeError
                              | Some dir \<Rightarrow>
                                  (case reconcile ev w3 new_flags
                                          (join dir CLANG_COMPLETE_FILE_NAME)
                                          (flags_update_strategy m1) of
                                     Inl e \<Rightarrow> Inl e
                                   | Inr w4 \<Rightarrow> Inr (m1, w4))))))))"

text \<open>Lines 105-110 of \<open>get_flags\<close>: the search for the flag-list file.\<close>

definition find_clang_complete_file :: "world \<Rightarrow> flags_manager \<Rightarrow> flags_manager \<times> world" where
  "find_clang_complete_file w m =
     (if \<not> loaded (clang_complete_file m)
      then (let w1 = log_msg DEBUG '' .clang_complete not loaded. Searching for one...'' w
            in (m\<lparr>clang_complete_file :=
                     File_search w1 CLANG_COMPLETE_FILE_NAME
                       (from_folder (search_scope m)) (to_folder (search_scope m)) None\<rparr>, w1))
      else (m, w))"

text \<open>Lines 112-115 of \<open>get_flags\<close>: the flags are read again when the flag-list file was
  modified.\<close>

definition reload_flags ::
    "bool \<Rightarrow> world \<Rightarrow> flags_manager \<Rightarrow> error + (flags_manager \<times> world)" where
  "reload_flags separate_includes w m =
     (case was_modified w (clang_complete_file m) of
        (modified, f) \<Rightarrow>
          (let m1 = m\<lparr>clang_complete_file := f\<rparr>
           in if \<not> modified then Inr (m1, w)
              else
                (case flags_from_clang_file
                        (log_msg DEBUG '' .clang_complete modified. Load new flags.'' w)
                        f separate_includes of
                   Inl e \<Rightarrow> Inl e
                 | Inr (new_list, w1) \<Rightarrow> Inr (m1\<lparr>flags := new_list\<rparr>, w1))))"

text \<open>
  \<open>get_flags(separate_includes)\<close>: the four steps in the order of the source.  The result
  is the list returned, the manager and the world after the call.
\<close>

definition get_flags ::
    "env \<Rightarrow> bool \<Rightarrow> world \<Rightarrow> flags_manager
       \<Rightarrow> error + (string list \<times> flags_manager \<times> world)" where
  "get_flags ev separate_includes w m =
     (case find_cmake_file w m of
        (m1, w1) \<Rightarrow>
          (case update_clang_file ev w1 m1 of
             Inl e \<Rightarrow> Inl e
           | Inr (m2, w2) \<Rightarrow>
               (case find_clang_complete_file w2 m2 of
                  (m3, w3) \<Rightarrow>
                    (case reload_flags separate_includes w3 m3 of
                       Inl e \<Rightarrow> Inl e
                     | Inr (m4, w4) \<Rightarrow> Inr (flags m4, m4, w4)))))"

section \<open>The shape of a compilation database\<close>

text \<open>
  \<open>command_of entry\<close> is the command string of an entry that is a record with a string
  under the key \<open>command\<close>, the shape of section 6 of the spec.
\<close>

fun command_of :: "json \<Rightarrow> string option" where
  "command_of (JObj kvs) =
     (case map_of kvs ''command'' of Some (JStr c) \<Rightarrow> Some c | _ \<Rightarrow> None)"
| "command_of _ = None"

text \<open>The last token of a command starts with \<open>-isystem\<close>, so that no token follows it.\<close>

definition isystem_last :: "string list \<Rightarrow> bool" where
  "isystem_last parts \<longleftrightarrow> parts \<noteq> [] \<and> startswith ''-isystem'' (last parts)"

text \<open>
  The flags of one command in the spec's words: "any token starting with \<open>-I\<close> or \<open>-D\<close> is
  kept verbatim; any token starting with \<open>-isystem\<close> is combined with the immediately
  following token (its argument) into one flag".
\<close>

definition kept_tokens :: "string list \<Rightarrow> string set" where
  "kept_tokens toks = {t \<in> set toks. startswith ''-I'' t \<or> startswith ''-D'' t}"

definition isystem_flags :: "string list \<Rightarrow> string set" where
  "isystem_flags toks =
     {toks ! i @ '' '' @ toks ! Suc i | i.
        Suc i < length toks \<and> startswith ''-isystem'' (toks ! i)}"

definition extracted :: "string \<Rightarrow> string set" where
  "extracted command = kept_tokens (str_split command) \<union> isystem_flags (str_split command)"

text \<open>What \<open>split()\<close> returns: tokens that are not empty and hold no whitespace.\<close>

definition tokens_ok :: "string list \<Rightarrow> bool" where
  "tokens_ok parts \<longleftrightarrow> (\<forall>t\<in>set parts. t \<noteq> [] \<and> (\<forall>c\<in>set t. \<not> is_space c))"

section \<open>One line of a flag-list file\<close>

text \<open>
  The path of an include line: normalized when absolute, joined to the directory
  otherwise.
\<close>

definition resolve :: "string \<Rightarrow> string \<Rightarrow> string" where
  "resolve dir p = (if isabs p then normpath p else join dir p)"

text \<open>
  What one pass of the loop of \<open>flags_from_clang_file\<close> appends for a line; \<open>parse_lines\<close>
  is shown below to append just this for each line in turn.
\<close>

definition line_flags :: "string \<Rightarrow> bool \<Rightarrow> string \<Rightarrow> string list" where
  "line_flags dir separate_includes line =
     (if startswith ''-D'' line then [strip line]
      else if startswith ''-I'' line
      then [mask_format separate_includes ''-I'' (resolve dir (strip (drop 2 line)))]
      else if startswith ''-isystem'' line
      then [strip (mask_format separate_includes ''-isystem''
                     (resolve dir (strip (drop 8 line))))]
      else [])"

section \<open>Trimming and anchoring in the spec's words\<close>

text \<open>
  \<open>trimmed s q\<close>: \<open>q\<close> is \<open>s\<close> without the whitespace at its two ends, said without
  reference to \<open>strip\<close>.
\<close>

definition trimmed :: "string \<Rightarrow> string \<Rightarrow> bool" where
  "trimmed s q \<longleftrightarrow>
     (\<exists>a b. s = a @ q @ b \<and> (\<forall>c\<in>set a. is_space c) \<and> (\<forall>c\<in>set b. is_space c))
     \<and> (q = [] \<or> (\<not> is_space (hd q) \<and> \<not> is_space (last q)))"

text \<open>
  A relative path anchored at a directory, written out: the two are put together with one
  slash between them unless the directory is empty or ends in a slash.
\<close>

definition anchored :: "string \<Rightarrow> string \<Rightarrow> string" where
  "anchored dir q = (if dir = [] \<or> last dir = CHR ''/'' then dir @ q else dir @ ''/'' @ q)"

section \<open>The text of a flag-list file in the spec's words\<close>

text \<open>"Newline-joined, trailing newline": every flag is followed by a newline; of no flags
  at all the join is empty and the text is the trailing newline alone.\<close>

definition newline_joined :: "string list \<Rightarrow> string" where
  "newline_joined xs = (if xs = [] then [CHR 0x0A] else concat (map (\<lambda>x. x @ [CHR 0x0A]) xs))"

section \<open>Writing a flag list and reading it back\<close>

text \<open>The round trip of the spec: the flags are written with the strategy \<open>overwrite\<close>
  and the file is parsed without include separation.\<close>

definition overwrite_then_parse ::
    "dialog \<Rightarrow> world \<Rightarrow> string list \<Rightarrow> string \<Rightarrow> error + string list" where
  "overwrite_then_parse pick w flag_set file_path =
     (case write_flags_to_file pick w flag_set file_path ''overwrite'' of
        Inl e \<Rightarrow> Inl e
      | Inr w' \<Rightarrow>
          (case flags_from_clang_file w' (File_at w' file_path) False of
             Inl e \<Rightarrow> Inl e
           | Inr (parsed, _) \<Rightarrow> Inr parsed))"

text \<open>
  The flags that a round trip leaves as they are: without a line break and without
  whitespace at the end, and either a define, or \<open>-I\<close> or \<open>-isystem\<close> directly followed by
  an absolute path that \<open>normpath\<close> does not change.
\<close>

definition stable_flag :: "string \<Rightarrow> bool" where
  "stable_flag f \<longleftrightarrow>
     newline \<notin> set f \<and> carriage_return \<notin> set f \<and> f \<noteq> [] \<and> \<not> is_space (last f)
     \<and> (startswith ''-D'' f
        \<or> (startswith ''-I'' f \<and> isabs (drop 2 f) \<and> normpath (drop 2 f) = drop 2 f)
        \<or> (startswith ''-isystem'' f \<and> isabs (drop 8 f) \<and> normpath (drop 8 f) = drop 8 f))"

section \<open>Managers that have nothing left to do\<close>

text \<open>\<open>s.endswith(suffix)\<close>.\<close>

definition endswith :: "string \<Rightarrow> string \<Rightarrow> bool" where
  "endswith suffix s \<longleftrightarrow> startswith (rev suffix) (rev s)"

text \<open>
  The build-description reference of a manager is only ever set by the search for
  \<open>CMakeLists.txt\<close>: it is unset or names a file of that name.
\<close>

definition tracks_build_description :: "flags_manager \<Rightarrow> bool" where
  "tracks_build_description m \<longleftrightarrow>
     (case full_path (cmake_file m) of None \<Rightarrow> True | Some p \<Rightarrow> endswith CMAKE_FILE_NAME p)"

text \<open>The two worlds have the same files, directories and clock: nothing was written
  between them.\<close>

definition same_files :: "world \<Rightarrow> world \<Rightarrow> bool" where
  "same_files w w' \<longleftrightarrow> files w' = files w \<and> dirs w' = dirs w \<and> now w' = now w"

text \<open>
  A manager is settled in a world when a call of \<open>get_flags\<close> finds nothing to do: the
  references that are bound report no modification, and the searches for those that are
  unbound return what the manager already holds.
\<close>

definition settled :: "world \<Rightarrow> flags_manager \<Rightarrow> bool" where
  "settled w m \<longleftrightarrow>
     (use_cmake m \<longrightarrow>
        (if loaded (cmake_file m) then was_modified w (cmake_file m) = (False, cmake_file m)
         else File_search w CMAKE_FILE_NAME (from_folder (search_scope m))
                (to_folder (search_scope m)) (Some ''project'') = cmake_file m))
     \<and> (if loaded (clang_complete_file m)
        then was_modified w (clang_complete_file m) = (False, clang_complete_file m)
        else File_search w CLANG_COMPLETE_FILE_NAME (from_folder (search_scope m))
               (to_folder (search_scope m)) None = clang_complete_file m)"

section \<open>Example inputs\<close>

text \<open>
  A project \<open>/proj\<close> with a build description, the database the build tool writes for it,
  and the values of \<open>json.load\<close> on the texts that occur: the database, the empty array,
  and a text that is not JSON, on which it raises.
\<close>

definition example_command :: string where
  "example_command = ''clang -Iinc -DFOO=1 -isystem /usr/x -O2''"

definition example_db_text :: string where
  "example_db_text =
     ''[{'' @ [dquote] @ ''command'' @ [dquote] @ '': '' @ [dquote] @ example_command
       @ [dquote] @ ''}]''"

definition example_json_load :: "string \<Rightarrow> json option" where
  "example_json_load text =
     (if text = example_db_text then Some (JArr [JObj [(''command'', JStr example_command)]])
      else if text = ''[]'' then Some (JArr [])
      else None)"

definition example_db_path :: string where
  "example_db_path = ''/tmp/cmake_builds/0f/compile_commands.json''"

definition example_check_output ::
    "string \<Rightarrow> string \<Rightarrow> (string \<Rightarrow> file_entry option) \<Rightarrow> process_result" where
  "example_check_output cmd cwd fs =
     \<lparr>returncode = 0, output_text = ''-- Build files have been written'',
      files_after = fs(join cwd CMAKE_DB_FILE_NAME \<mapsto> \<lparr>content = example_db_text, mtime = 2\<rparr>)\<rparr>"

definition example_env :: env where
  "example_env =
     \<lparr>get_temp_dir = ''/tmp'', md5_hexdigest = (\<lambda>_. ''0f''),
      check_output = example_check_output, json_load = example_json_load,
      user_pick = DIALOG_NO\<rparr>"

definition example_db_file :: file_ref where
  "example_db_file = \<lparr>full_path = Some example_db_path, last_seen = 0\<rparr>"

text \<open>The world that holds the given files, each with the modification time 1, and the
  directories above them.\<close>

definition world_with :: "(string \<times> string) list \<Rightarrow> world" where
  "world_with fs =
     \<lparr>files = map_of (map (\<lambda>(p, text). (p, \<lparr>content = text, mtime = 1\<rparr>)) fs),
      dirs = set (concat (map (\<lambda>(p, text). ancestors (dirname p)) fs)), now = 1, log = []\<rparr>"

text \<open>The flag-list file beside the build description of the project.\<close>

definition example_flag_path :: string where
  "example_flag_path = ''/proj/.clang_complete''"

text \<open>
  A second project, whose database holds flags that the flag-list parser leaves as they
  are: the build tool writes the database into its working directory, a manager searches
  from \<open>/proj/src\<close> up to \<open>/proj\<close>.
\<close>

definition project_command :: string where
  "project_command = ''clang -I/proj/inc -DFOO=1 -c main.c''"

definition project_db_text :: string where
  "project_db_text =
     ''[{'' @ [dquote] @ ''command'' @ [dquote] @ '': '' @ [dquote] @ project_command
       @ [dquote] @ ''}]''"

definition project_json_load :: "string \<Rightarrow> json option" where
  "project_json_load text =
     (if text = project_db_text then Some (JArr [JObj [(''command'', JStr project_command)]])
      else None)"

definition project_check_output ::
    "string \<Rightarrow> string \<Rightarrow> (string \<Rightarrow> file_entry option) \<Rightarrow> process_result" where
  "project_check_output cmd cwd fs =
     \<lparr>returncode = 0, output_text = ''-- Build files have been written'',
      files_after = fs(join cwd CMAKE_DB_FILE_NAME \<mapsto> \<lparr>content = project_db_text, mtime = 2\<rparr>)\<rparr>"

definition project_env :: env where
  "project_env =
     \<lparr>get_temp_dir = ''/tmp'', md5_hexdigest = (\<lambda>_. ''0f''),
      check_output = project_check_output, json_load = project_json_load,
      user_pick = DIALOG_NO\<rparr>"

definition project_manager :: flags_manager where
  "project_manager =
     \<lparr>cmake_file = File_empty, clang_complete_file = File_empty, flags = [],
      search_scope = \<lparr>from_folder = Some ''/proj/src'', to_folder = Some ''/proj''\<rparr>,
      use_cmake = True, flags_update_strategy = ''ask''\<rparr>"

definition project_world :: world where
  "project_world = world_with [(''/proj/CMakeLists.txt'', ''project(demo)'')]"

text \<open>The same project with a flag-list file that already holds the flags of the database,
  in another order, and a manager that has found the build description.\<close>

definition project_flag_text :: string where
  "project_flag_text = ''-DFOO=1'' @ [newline] @ ''-I/proj/inc'' @ [newline]"

definition project_world_with_flags :: world where
  "project_world_with_flags =
     world_with [(''/proj/CMakeLists.txt'', ''project(demo)''),
                 (''/proj/.clang_complete'', project_flag_text)]"

definition project_manager_loaded :: flags_manager where
  "project_manager_loaded =
     project_manager\<lparr>cmake_file := \<lparr>full_path = Some ''/proj/CMakeLists.txt'', last_seen = 0\<rparr>\<rparr>"

text \<open>The part of a result that can be compared: the value returned, and the files at the
  given paths with the clock instead of the whole world.\<close>

definition observe ::
    "string list \<Rightarrow> error + (string list \<times> flags_manager \<times> world)
       \<Rightarrow> error + (string list \<times> flags_manager \<times> file_entry option list \<times> nat)" where
  "observe paths r =
     (case r of Inl e \<Rightarrow> Inl e
      | Inr (fl, m, w) \<Rightarrow> Inr (fl, m, map (files w) paths, now w))"

definition observe_db ::
    "string list \<Rightarrow> error + (file_ref option \<times> world)
       \<Rightarrow> error + (file_ref option \<times> file_entry option list)" where
  "observe_db paths r =
     (case r of Inl e \<Rightarrow> Inl e | Inr (db, w) \<Rightarrow> Inr (db, map (files w) paths))"

text \<open>The flags parsed from a flag-list file at the given path with the given text, alone in
  the world.\<close>

definition parse_text :: "string \<Rightarrow> string \<Rightarrow> bool \<Rightarrow> error + string list" where
  "parse_text p text separate_includes =
     (case flags_from_clang_file (world_with [(p, text)])
             \<lparr>full_path = Some p, last_seen = 0\<rparr> separate_includes of
        Inl e \<Rightarrow> Inl e
      | Inr (parsed, _) \<Rightarrow> Inr parsed)"

section \<open>Properties of the database extraction\<close>

lemma set_set_add: "set (set_add x s) = insert x (set s)"
  by (auto simp: set_add_def)

lemma distinct_set_add: "distinct s \<Longrightarrow> distinct (set_add x s)"
  by (auto simp: set_add_def)

lemma isystem_not_kept:
  "startswith ''-isystem'' t \<Longrightarrow> \<not> (startswith ''-I'' t \<or> startswith ''-D'' t)"
  by (cases t; cases "tl t") (auto simp: startswith_def)

lemma split_run_token:
  "t \<in> set (split_run cur s) \<Longrightarrow> \<forall>c\<in>set cur. \<not> is_space c
     \<Longrightarrow> t \<noteq> [] \<and> (\<forall>c\<in>set t. \<not> is_space c)"
proof (induction s arbitrary: cur)
  case Nil
  then show ?case by (auto split: if_splits)
next
  case (Cons a s)
  show ?case
  proof (cases "is_space a")
    case sp: True
    show ?thesis
    proof (cases "cur = []")
      case True
      with sp Cons.prems(1) have "t \<in> set (split_run [] s)" by simp
      then show ?thesis using Cons.IH [of "[]"] by simp
    next
      case False
      with sp Cons.prems(1) have "t = rev cur \<or> t \<in> set (split_run [] s)" by simp
      then show ?thesis
      proof
        assume "t = rev cur"
        with False Cons.prems(2) show ?thesis by simp
      next
        assume "t \<in> set (split_run [] s)"
        then show ?thesis using Cons.IH [of "[]"] by simp
      qed
    qed
  next
    case False
    with Cons.prems(1) have "t \<in> set (split_run (a # cur) s)" by simp
    moreover from False Cons.prems(2) have "\<forall>c\<in>set (a # cur). \<not> is_space c" by simp
    ultimately show ?thesis using Cons.IH [of "a # cur"] by blast
  qed
qed

lemma str_split_token:
  "t \<in> set (str_split s) \<Longrightarrow> t \<noteq> [] \<and> (\<forall>c\<in>set t. \<not> is_space c)"
  unfolding str_split_def using split_run_token [of t "[]" s] by simp

lemma strip_id:
  assumes "s \<noteq> []" "\<not> is_space (hd s)" "\<not> is_space (last s)"
  shows "strip s = s"
proof -
  from assms have 1: "dropWhile is_space s = s"
    by (cases s) auto
  from assms have "rev s \<noteq> []" "\<not> is_space (hd (rev s))"
    by (auto simp: hd_rev)
  then have "dropWhile is_space (rev s) = rev s"
    by (cases "rev s") auto
  with 1 show ?thesis by (simp add: strip_def)
qed

lemma strip_token: "t \<noteq> [] \<Longrightarrow> \<forall>c\<in>set t. \<not> is_space c \<Longrightarrow> strip t = t"
  by (rule strip_id) auto

lemma strip_pair:
  assumes "a \<noteq> []" "\<forall>c\<in>set a. \<not> is_space c" "b \<noteq> []" "\<forall>c\<in>set b. \<not> is_space c"
  shows "strip (a @ '' '' @ b) = a @ '' '' @ b"
  using assms by (intro strip_id) (auto simp: hd_append)

lemma isystem_flags_Cons:
  "isystem_flags (t # ts) =
     (if startswith ''-isystem'' t \<and> ts \<noteq> [] then {t @ '' '' @ hd ts} else {}) \<union> isystem_flags ts"
  (is "?L = ?A \<union> ?R")
proof (intro set_eqI iffI)
  fix x assume "x \<in> ?L"
  then obtain i where i: "Suc i < length (t # ts)" "startswith ''-isystem'' ((t # ts) ! i)"
      "x = (t # ts) ! i @ '' '' @ (t # ts) ! Suc i"
    unfolding isystem_flags_def by blast
  show "x \<in> ?A \<union> ?R"
  proof (cases i)
    case 0
    with i have "ts \<noteq> []" "startswith ''-isystem'' t" "x = t @ '' '' @ hd ts"
      by (auto simp: hd_conv_nth)
    then show ?thesis by simp
  next
    case (Suc j)
    with i have "Suc j < length ts" "startswith ''-isystem'' (ts ! j)"
        "x = ts ! j @ '' '' @ ts ! Suc j"
      by auto
    then have "x \<in> ?R" unfolding isystem_flags_def by blast
    then show ?thesis by simp
  qed
next
  fix x assume "x \<in> ?A \<union> ?R"
  then consider (a) "x \<in> ?A" | (r) "x \<in> ?R" by blast
  then show "x \<in> ?L"
  proof cases
    case a
    then have "ts \<noteq> []" "startswith ''-isystem'' t" "x = t @ '' '' @ hd ts"
      by (auto split: if_splits)
    then have "Suc 0 < length (t # ts)" "startswith ''-isystem'' ((t # ts) ! 0)"
        "x = (t # ts) ! 0 @ '' '' @ (t # ts) ! Suc 0"
      by (auto simp: hd_conv_nth)
    then show ?thesis unfolding isystem_flags_def by blast
  next
    case r
    then obtain j where "Suc j < length ts" "startswith ''-isystem'' (ts ! j)"
        "x = ts ! j @ '' '' @ ts ! Suc j"
      unfolding isystem_flags_def by blast
    then have "Suc (Suc j) < length (t # ts)" "startswith ''-isystem'' ((t # ts) ! Suc j)"
        "x = (t # ts) ! Suc j @ '' '' @ (t # ts) ! Suc (Suc j)"
      by auto
    then show ?thesis unfolding isystem_flags_def by blast
  qed
qed

lemma kept_tokens_Cons:
  "kept_tokens (t # ts) =
     (if startswith ''-I'' t \<or> startswith ''-D'' t then {t} else {}) \<union> kept_tokens ts"
  by (auto simp: kept_tokens_def)

lemma isystem_last_Cons:
  "isystem_last (t # ts) \<longleftrightarrow> (if ts = [] then startswith ''-isystem'' t else isystem_last ts)"
  by (auto simp: isystem_last_def)

lemma isystem_last_Nil [simp]: "\<not> isystem_last []"
  by (simp add: isystem_last_def)

lemma kept_tokens_Nil [simp]: "kept_tokens [] = {}"
  by (simp add: kept_tokens_def)

lemma isystem_flags_Nil [simp]: "isystem_flags [] = {}"
  by (simp add: isystem_flags_def)

lemma scan_parts_kept:
  "startswith ''-I'' t \<or> startswith ''-D'' t \<Longrightarrow>
   scan_parts (t # ts) acc = scan_parts ts (set_add (strip t) acc)"
  by simp

lemma scan_parts_other:
  "\<not> (startswith ''-I'' t \<or> startswith ''-D'' t) \<Longrightarrow> \<not> startswith ''-isystem'' t \<Longrightarrow>
   scan_parts (t # ts) acc = scan_parts ts acc"
  by simp

lemma scan_parts_isystem:
  "startswith ''-isystem'' t \<Longrightarrow>
   scan_parts (t # n # ns) acc = scan_parts (n # ns) (set_add (strip (t @ '' '' @ n)) acc)"
  using isystem_not_kept [of t] by simp

lemma scan_parts_isystem_end:
  "startswith ''-isystem'' t \<Longrightarrow> scan_parts [t] acc = Inl IndexError"
  using isystem_not_kept [of t] by simp

lemma scan_parts_error:
  "isystem_last parts \<Longrightarrow> scan_parts parts acc = Inl IndexError"
proof (induction parts arbitrary: acc)
  case Nil
  then show ?case by simp
next
  case (Cons t ts)
  show ?case
  proof (cases ts)
    case Nil
    with Cons.prems have "startswith ''-isystem'' t" by (simp add: isystem_last_def)
    with Nil show ?thesis by (simp only: scan_parts_isystem_end)
  next
    case (Cons n ns)
    with Cons.prems have bad_last: "isystem_last ts" by (simp add: isystem_last_def)
    have step: "\<exists>acc'. scan_parts (t # ts) acc = scan_parts ts acc'"
    proof (cases "startswith ''-I'' t \<or> startswith ''-D'' t")
      case True
      then show ?thesis using scan_parts_kept by blast
    next
      case False
      show ?thesis
      proof (cases "startswith ''-isystem'' t")
        case True
        then show ?thesis unfolding Cons using scan_parts_isystem by blast
      next
        case nsys: False
        with False show ?thesis using scan_parts_other by blast
      qed
    qed
    then obtain acc' where "scan_parts (t # ts) acc = scan_parts ts acc'" ..
    with Cons.IH [OF bad_last] show ?thesis by simp
  qed
qed

lemma scan_parts_ok:
  "tokens_ok parts \<Longrightarrow> \<not> isystem_last parts \<Longrightarrow>
     \<exists>fl. scan_parts parts acc = Inr fl \<and>
          set fl = set acc \<union> kept_tokens parts \<union> isystem_flags parts \<and>
          (distinct acc \<longrightarrow> distinct fl)"
proof (induction parts arbitrary: acc)
  case Nil
  then show ?case by simp
next
  case (Cons t ts)
  from Cons.prems have t: "t \<noteq> []" "\<forall>c\<in>set t. \<not> is_space c" and ts: "tokens_ok ts"
    by (auto simp: tokens_ok_def)
  have st: "strip t = t" using t by (rule strip_token)
  show ?case
  proof (cases ts)
    case Nil
    with Cons.prems have nsys: "\<not> startswith ''-isystem'' t" by (simp add: isystem_last_def)
    show ?thesis
    proof (cases "startswith ''-I'' t \<or> startswith ''-D'' t")
      case True
      then have "scan_parts (t # ts) acc = Inr (set_add t acc)"
        unfolding Nil by (simp add: st)
      with True nsys show ?thesis unfolding Nil
        by (simp add: kept_tokens_Cons isystem_flags_Cons set_set_add distinct_set_add
              del: scan_parts.simps)
    next
      case False
      with nsys have "scan_parts (t # ts) acc = Inr acc"
        unfolding Nil by simp
      with False nsys show ?thesis unfolding Nil
        by (simp add: kept_tokens_Cons isystem_flags_Cons del: scan_parts.simps)
    qed
  next
    case (Cons n ns)
    with Cons.prems have nl: "\<not> isystem_last ts" by (simp add: isystem_last_def)
    from ts Cons have n: "n \<noteq> []" "\<forall>c\<in>set n. \<not> is_space c"
      by (auto simp: tokens_ok_def)
    have hd: "hd ts = n" "ts \<noteq> []" using Cons by simp_all
    show ?thesis
    proof (cases "startswith ''-I'' t \<or> startswith ''-D'' t")
      case True
      then have nsys: "\<not> startswith ''-isystem'' t" using isystem_not_kept by blast
      from True have eq: "scan_parts (t # ts) acc = scan_parts ts (set_add t acc)"
        using scan_parts_kept [of t ts acc] by (simp only: st)
      from Cons.IH [OF ts nl, of "set_add t acc"] obtain fl where
        fl: "scan_parts ts (set_add t acc) = Inr fl"
            "set fl = set (set_add t acc) \<union> kept_tokens ts \<union> isystem_flags ts"
            "distinct (set_add t acc) \<longrightarrow> distinct fl"
        by blast
      have "set fl = set acc \<union> kept_tokens (t # ts) \<union> isystem_flags (t # ts)"
        using fl(2) True nsys
        by (auto simp: kept_tokens_Cons isystem_flags_Cons set_set_add)
      moreover have "distinct acc \<longrightarrow> distinct fl"
        using fl(3) distinct_set_add by blast
      ultimately show ?thesis using eq fl(1) by simp
    next
      case False
      show ?thesis
      proof (cases "startswith ''-isystem'' t")
        case nsys: False
        have eq: "scan_parts (t # ts) acc = scan_parts ts acc"
          using scan_parts_other [OF False nsys] .
        from Cons.IH [OF ts nl, of acc] obtain fl where
          fl: "scan_parts ts acc = Inr fl"
              "set fl = set acc \<union> kept_tokens ts \<union> isystem_flags ts"
              "distinct acc \<longrightarrow> distinct fl"
          by blast
        have "set fl = set acc \<union> kept_tokens (t # ts) \<union> isystem_flags (t # ts)"
          using fl(2) False nsys
          by (simp add: kept_tokens_Cons isystem_flags_Cons)
        then show ?thesis using eq fl(1) fl(3) by simp
      next
        case sys: True
        have sp: "strip (t @ '' '' @ n) = t @ '' '' @ n"
          using t n by (intro strip_pair) auto
        have eq: "scan_parts (t # ts) acc = scan_parts ts (set_add (t @ '' '' @ n) acc)"
          using scan_parts_isystem [OF sys, of n ns acc] unfolding Cons by (simp only: sp)
        from Cons.IH [OF ts nl, of "set_add (t @ '' '' @ n) acc"] obtain fl where
          fl: "scan_parts ts (set_add (t @ '' '' @ n) acc) = Inr fl"
              "set fl = set (set_add (t @ '' '' @ n) acc) \<union> kept_tokens ts \<union> isystem_flags ts"
              "distinct (set_add (t @ '' '' @ n) acc) \<longrightarrow> distinct fl"
          by blast
        have "set fl = set acc \<union> kept_tokens (t # ts) \<union> isystem_flags (t # ts)"
          using fl(2) False sys hd
          by (auto simp: kept_tokens_Cons isystem_flags_Cons set_set_add)
        moreover have "distinct acc \<longrightarrow> distinct fl"
          using fl(3) distinct_set_add by blast
        ultimately show ?thesis using eq fl(1) by simp
      qed
    qed
  qed
qed

lemma command_of_subscript:
  "command_of e = Some c \<Longrightarrow> subscript_command e = Inr (JStr c)"
  by (cases e) (auto split: option.splits json.splits)

lemma tokens_ok_str_split: "tokens_ok (str_split c)"
  unfolding tokens_ok_def using str_split_token by blast

lemma scan_entries_step:
  "command_of e = Some c \<Longrightarrow>
   scan_entries (e # es) acc =
     (case scan_parts (str_split c) acc of Inl err \<Rightarrow> Inl err | Inr acc' \<Rightarrow> scan_entries es acc')"
  by (simp add: command_of_subscript)

lemma scan_entries_ok:
  "map command_of es = map Some cmds \<Longrightarrow> \<forall>c\<in>set cmds. \<not> isystem_last (str_split c) \<Longrightarrow>
   \<exists>fl. scan_entries es acc = Inr fl \<and> set fl = set acc \<union> (\<Union>c\<in>set cmds. extracted c)
        \<and> (distinct acc \<longrightarrow> distinct fl)"
proof (induction es arbitrary: cmds acc)
  case Nil
  then show ?case by simp
next
  case (Cons e es)
  from Cons.prems(1) obtain c cs where cmds: "cmds = c # cs" and e: "command_of e = Some c"
      and es: "map command_of es = map Some cs"
    by (cases cmds) auto
  from Cons.prems(2) cmds have c: "\<not> isystem_last (str_split c)"
      and cs: "\<forall>c\<in>set cs. \<not> isystem_last (str_split c)"
    by simp_all
  from scan_parts_ok [OF tokens_ok_str_split c, of acc] obtain acc' where
    acc': "scan_parts (str_split c) acc = Inr acc'"
          "set acc' = set acc \<union> kept_tokens (str_split c) \<union> isystem_flags (str_split c)"
          "distinct acc \<longrightarrow> distinct acc'"
    by blast
  from Cons.IH [OF es cs, of acc'] obtain fl where
    fl: "scan_entries es acc' = Inr fl" "set fl = set acc' \<union> (\<Union>c\<in>set cs. extracted c)"
        "distinct acc' \<longrightarrow> distinct fl"
    by blast
  have "scan_entries (e # es) acc = Inr fl"
    using fl(1) acc'(1) by (simp only: scan_entries_step [OF e] sum.case)
  moreover have "set fl = set acc \<union> (\<Union>c\<in>set cmds. extracted c)"
    using fl(2) acc'(2) cmds by (auto simp: extracted_def)
  moreover have "distinct acc \<longrightarrow> distinct fl"
    using fl(3) acc'(3) by blast
  ultimately show ?case by blast
qed

lemma scan_entries_error:
  "map command_of es = map Some cmds \<Longrightarrow> \<exists>c\<in>set cmds. isystem_last (str_split c) \<Longrightarrow>
   scan_entries es acc = Inl IndexError"
proof (induction es arbitrary: cmds acc)
  case Nil
  then show ?case by simp
next
  case (Cons e es)
  from Cons.prems(1) obtain c cs where cmds: "cmds = c # cs" and e: "command_of e = Some c"
      and es: "map command_of es = map Some cs"
    by (cases cmds) auto
  show ?case
  proof (cases "isystem_last (str_split c)")
    case True
    then have "scan_parts (str_split c) acc = Inl IndexError" by (rule scan_parts_error)
    then show ?thesis by (simp only: scan_entries_step [OF e] sum.case)
  next
    case False
    with Cons.prems(2) cmds have cs: "\<exists>c\<in>set cs. isystem_last (str_split c)" by simp
    from scan_parts_ok [OF tokens_ok_str_split False, of acc] obtain acc' where
      acc': "scan_parts (str_split c) acc = Inr acc'" by blast
    from Cons.IH [OF es cs, of acc'] acc' show ?thesis
      by (simp only: scan_entries_step [OF e] sum.case)
  qed
qed

lemma flags_from_database_data:
  "full_path f = Some p \<Longrightarrow> files w p = Some e \<Longrightarrow> json_load ev (content e) = Some data \<Longrightarrow>
   flags_from_database ev w f =
     (case flags_from_data data of
        Inl err \<Rightarrow> Inl err
      | Inr None \<Rightarrow> Inr (None, w)
      | Inr (Some flags_set) \<Rightarrow> Inr (Some flags_set, log_msg DEBUG '' flags set: %s'' w))"
  by (simp add: flags_from_database_def)

lemma flags_from_data_JArr:
  "es \<noteq> [] \<Longrightarrow> flags_from_data (JArr es) =
     (case scan_entries es [] of Inl err \<Rightarrow> Inl err | Inr fl \<Rightarrow> Inr (Some fl))"
  by (simp add: flags_from_data_def)

lemma example_scan:
  "scan_parts (str_split example_command) [] = Inr [''-Iinc'', ''-DFOO=1'', ''-isystem /usr/x'']"
  by code_simp

lemma example_not_last: "\<not> isystem_last (str_split example_command)"
  by code_simp

lemma flags_from_database_ok:
  assumes "full_path f = Some p" and "files w p = Some e"
    and "json_load ev (content e) = Some (JArr es)"
    and "map command_of es = map Some cmds" and "es \<noteq> []"
    and "\<forall>c\<in>set cmds. \<not> isystem_last (str_split c)"
  shows "\<exists>fl w'. flags_from_database ev w f = Inr (Some fl, w') \<and> distinct fl
           \<and> set fl = (\<Union>c\<in>set cmds. extracted c)"
proof -
  from scan_entries_ok [OF assms(4) assms(6), of "[]"] obtain fl where
    fl: "scan_entries es [] = Inr fl" "set fl = (\<Union>c\<in>set cmds. extracted c)" "distinct fl"
    by auto
  have "flags_from_data (JArr es) = Inr (Some fl)"
    using fl(1) by (simp only: flags_from_data_JArr [OF assms(5)] sum.case)
  then have "flags_from_database ev w f = Inr (Some fl, log_msg DEBUG '' flags set: %s'' w)"
    by (simp only: flags_from_database_data [OF assms(1-3)] sum.case option.case)
  with fl(2,3) show ?thesis by blast
qed

text \<open>
  Claim C5.  On a database that is an array of records with command strings, none of which
  ends in a token starting with \<open>-isystem\<close>, \<open>flags_from_database\<close> returns a set of flags,
  and the set is the one the spec describes: of every command the tokens starting with
  \<open>-I\<close> or \<open>-D\<close>, verbatim, and every token starting with \<open>-isystem\<close> joined by a blank
  with the token after it; all other tokens are dropped.
\<close>

theorem flags_from_database_extraction:
  assumes "full_path f = Some p" and "files w p = Some e"
    and "json_load ev (content e) = Some (JArr es)"
    and "map command_of es = map Some cmds" and "es \<noteq> []"
    and "\<forall>c\<in>set cmds. \<not> isystem_last (str_split c)"
  shows "\<exists>fl w'. flags_from_database ev w f = Inr (Some fl, w') \<and> distinct fl
           \<and> set fl = (\<Union>c\<in>set cmds. extracted c)"
  using assms by (rule flags_from_database_ok)

theorem flags_from_database_extraction_witness:
  "\<exists>fl w'. flags_from_database example_env (world_with [(example_db_path, example_db_text)])
              example_db_file = Inr (Some fl, w')
     \<and> set fl = {''-Iinc'', ''-DFOO=1'', ''-isystem /usr/x''}
     \<and> extracted example_command = {''-Iinc'', ''-DFOO=1'', ''-isystem /usr/x''}"
proof -
  let ?w = "world_with [(example_db_path, example_db_text)]"
  let ?es = "[JObj [(''command'', JStr example_command)]]"
  have 1: "full_path example_db_file = Some example_db_path"
    by (simp add: example_db_file_def)
  have 2: "files ?w example_db_path = Some \<lparr>content = example_db_text, mtime = 1\<rparr>"
    by (simp add: world_with_def)
  have 3: "json_load example_env (content \<lparr>content = example_db_text, mtime = 1\<rparr>) = Some (JArr ?es)"
    by (simp add: example_env_def example_json_load_def)
  have 4: "map command_of ?es = map Some [example_command]" by simp
  have 5: "?es \<noteq> []" by simp
  have 6: "\<forall>c\<in>set [example_command]. \<not> isystem_last (str_split c)"
    using example_not_last by simp
  from flags_from_database_extraction [OF 1 2 3 4 5 6] obtain fl w' where
    fl: "flags_from_database example_env ?w example_db_file = Inr (Some fl, w')"
        "set fl = (\<Union>c\<in>set [example_command]. extracted c)"
    by blast
  have "flags_from_data (JArr ?es) = Inr (Some [''-Iinc'', ''-DFOO=1'', ''-isystem /usr/x''])"
    using example_scan by (simp add: flags_from_data_def)
  then have "flags_from_database example_env ?w example_db_file
      = Inr (Some [''-Iinc'', ''-DFOO=1'', ''-isystem /usr/x''], log_msg DEBUG '' flags set: %s'' ?w)"
    by (simp only: flags_from_database_data [OF 1 2 3] sum.case option.case)
  with fl(1) have "fl = [''-Iinc'', ''-DFOO=1'', ''-isystem /usr/x'']" by simp
  with fl show ?thesis by auto
qed


text \<open>
  Claim C9.  On a database that is an array of records with command strings,
  \<open>flags_from_database\<close> raises \<open>IndexError\<close> exactly when some command ends in a token
  starting with \<open>-isystem\<close>, the token whose successor \<open>all_command_parts[i + 1]\<close> does not
  exist; otherwise it returns.
\<close>

theorem flags_from_database_isystem_index:
  assumes "full_path f = Some p" and "files w p = Some e"
    and "json_load ev (content e) = Some (JArr es)"
    and "map command_of es = map Some cmds"
  shows "if \<exists>c\<in>set cmds. isystem_last (str_split c)
         then flags_from_database ev w f = Inl IndexError
         else \<exists>r. flags_from_database ev w f = Inr r"
proof (cases "\<exists>c\<in>set cmds. isystem_last (str_split c)")
  case True
  then have ne: "es \<noteq> []" using assms(4) by auto
  from scan_entries_error [OF assms(4) True, of "[]"]
  have "flags_from_data (JArr es) = Inl IndexError"
    by (simp only: flags_from_data_JArr [OF ne] sum.case)
  then have "flags_from_database ev w f = Inl IndexError"
    by (simp only: flags_from_database_data [OF assms(1-3)] sum.case)
  with True show ?thesis by simp
next
  case False
  show ?thesis
  proof (cases "es = []")
    case True
    then have "flags_from_data (JArr es) = Inr None" by (simp add: flags_from_data_def)
    then have "flags_from_database ev w f = Inr (None, w)"
      by (simp only: flags_from_database_data [OF assms(1-3)] sum.case option.case)
    with False show ?thesis by simp
  next
    case ne: False
    from False have "\<forall>c\<in>set cmds. \<not> isystem_last (str_split c)" by blast
    from flags_from_database_ok [OF assms(1-4) ne this] False
    show ?thesis by auto
  qed
qed

theorem flags_from_database_isystem_index_witness:
  "flags_from_database (example_env\<lparr>json_load := (\<lambda>_. Some (JArr [JObj [(''command'', JStr ''clang -isystem'')]]))\<rparr>)
       (world_with [(example_db_path, example_db_text)]) example_db_file = Inl IndexError
   \<and> (\<exists>r. flags_from_database example_env (world_with [(example_db_path, example_db_text)])
             example_db_file = Inr r)"
proof -
  let ?w = "world_with [(example_db_path, example_db_text)]"
  let ?bad = "[JObj [(''command'', JStr ''clang -isystem'')]]"
  let ?ev = "example_env\<lparr>json_load := (\<lambda>_. Some (JArr ?bad))\<rparr>"
  let ?es = "[JObj [(''command'', JStr example_command)]]"
  have 1: "full_path example_db_file = Some example_db_path"
    by (simp add: example_db_file_def)
  have 2: "files ?w example_db_path = Some \<lparr>content = example_db_text, mtime = 1\<rparr>"
    by (simp add: world_with_def)
  have 3: "json_load example_env (content \<lparr>content = example_db_text, mtime = 1\<rparr>) = Some (JArr ?es)"
    by (simp add: example_env_def example_json_load_def)
  have b3: "json_load ?ev (content \<lparr>content = example_db_text, mtime = 1\<rparr>) = Some (JArr ?bad)"
    by simp
  have 4: "map command_of ?es = map Some [example_command]" by simp
  have b4: "map command_of ?bad = map Some [''clang -isystem'']" by simp
  have bad_last: "isystem_last (str_split ''clang -isystem'')" by code_simp
  have a: "flags_from_database ?ev ?w example_db_file = Inl IndexError"
    using flags_from_database_isystem_index [OF 1 2 b3 b4] bad_last by simp
  have b: "\<exists>r. flags_from_database example_env ?w example_db_file = Inr r"
    using flags_from_database_isystem_index [OF 1 2 3 4] example_not_last by simp
  from a b show ?thesis by blast
qed

section \<open>Properties of the flag-list parser\<close>

lemma files_log_msg [simp]: "files (log_msg lvl msg w) = files w"
  by (simp add: log_msg_def)

lemma dirs_log_msg [simp]: "dirs (log_msg lvl msg w) = dirs w"
  by (simp add: log_msg_def)

lemma now_log_msg [simp]: "now (log_msg lvl msg w) = now w"
  by (simp add: log_msg_def)

lemma parse_lines_line_flags:
  "parse_lines dir sep ls acc = acc @ concat (map (line_flags dir sep) ls)"
proof (induction ls arbitrary: acc)
  case Nil
  then show ?case by simp
next
  case (Cons l ls)
  show ?case
    by (simp add: Cons.IH line_flags_def resolve_def Let_def)
qed

lemma flags_from_clang_file_loaded:
  "full_path f = Some p \<Longrightarrow> files w p = Some e \<Longrightarrow>
   flags_from_clang_file w f sep =
     Inr (parse_lines (dirname p) sep (readlines (content e)) [],
          log_msg DEBUG '' .clang_complete contains flags: %s'' w)"
  by (simp add: flags_from_clang_file_def loaded_def folder_def)

lemma flags_from_clang_file_frame:
  "flags_from_clang_file w f sep = Inr (fl, w') \<Longrightarrow>
   files w' = files w \<and> dirs w' = dirs w \<and> now w' = now w"
  by (auto simp: flags_from_clang_file_def split: if_splits option.splits prod.splits)

lemma parse_lines_per_line:
  "parse_lines dir sep ls [] = concat (map (\<lambda>l. parse_lines dir sep [l] []) ls)"
proof -
  have "parse_lines dir sep [l] [] = line_flags dir sep l" for l
    by (simp add: parse_lines_line_flags)
  then show ?thesis by (simp add: parse_lines_line_flags)
qed

lemma trimmed_strip:
  assumes "trimmed s q"
  shows "strip s = q"
proof -
  from assms obtain a b where s: "s = a @ q @ b"
      and a: "\<forall>c\<in>set a. is_space c" and b: "\<forall>c\<in>set b. is_space c"
      and q: "q = [] \<or> (\<not> is_space (hd q) \<and> \<not> is_space (last q))"
    unfolding trimmed_def by blast
  from a have 1: "dropWhile is_space s = dropWhile is_space (q @ b)"
    unfolding s by (intro dropWhile_append2) simp
  show ?thesis
  proof (cases "q = []")
    case True
    from 1 True have "dropWhile is_space s = dropWhile is_space b" by (simp only: append_Nil)
    also from b have "\<dots> = []" by (induction b) auto
    finally have "strip s = []" by (simp only: strip_def rev.simps dropWhile.simps)
    with True show ?thesis by (simp only:)
  next
    case False
    with q have hq: "\<not> is_space (hd q)" and lq: "\<not> is_space (last q)" by simp_all
    from False hq have "dropWhile is_space (q @ b) = q @ b" by (cases q) auto
    with 1 have 2: "dropWhile is_space s = q @ b" by simp
    from b have "dropWhile is_space (rev b @ rev q) = dropWhile is_space (rev q)"
      by (intro dropWhile_append2) simp
    moreover from False lq have "dropWhile is_space (rev q) = rev q"
      by (cases "rev q") (auto simp: hd_rev)
    ultimately show ?thesis using 2 by (simp add: strip_def)
  qed
qed

lemma join_anchored: "\<not> isabs q \<Longrightarrow> join dir q = anchored dir q"
  by (simp add: join_def anchored_def isabs_def slash_def)

lemma isabs_iff: "isabs q \<longleftrightarrow> (\<exists>r. q = CHR ''/'' # r)"
  by (cases q) (auto simp: isabs_def startswith_def)

lemma parse_lines_include:
  assumes "trimmed rest q"
  shows "parse_lines dir sep [''-I'' @ rest] []
           = [mask_format sep ''-I''
                (if \<exists>r. q = CHR ''/'' # r then normpath q else anchored dir q)]"
proof -
  have "startswith ''-I'' (''-I'' @ rest)" "\<not> startswith ''-D'' (''-I'' @ rest)"
    by (simp_all add: startswith_def)
  moreover have "strip (drop 2 (''-I'' @ rest)) = q"
    using trimmed_strip [OF assms] by simp
  ultimately show ?thesis
    by (simp add: Let_def join_anchored isabs_iff [symmetric])
qed

lemma parse_lines_isystem:
  assumes "trimmed rest q"
    and "trimmed (mask_format sep ''-isystem''
                    (if \<exists>r. q = CHR ''/'' # r then normpath q else anchored dir q)) flag"
  shows "parse_lines dir sep [''-isystem'' @ rest] [] = [flag]"
proof -
  have "startswith ''-isystem'' (''-isystem'' @ rest)"
       "\<not> startswith ''-D'' (''-isystem'' @ rest)"
       "\<not> startswith ''-I'' (''-isystem'' @ rest)"
    by (simp_all add: startswith_def)
  moreover have "strip (drop 8 (''-isystem'' @ rest)) = q"
    using trimmed_strip [OF assms(1)] by simp
  ultimately show ?thesis
    using trimmed_strip [OF assms(2)]
    by (auto simp: Let_def join_anchored isabs_iff [symmetric])
qed

lemma mask_format_written:
  "mask_format sep a b = (if sep then a @ '' '' @ [CHR 0x22] @ b @ [CHR 0x22] else a @ b)"
  by (simp add: mask_format_def dquote_def)

lemma example_parse_text:
  "parse_text ''/proj/.flags'' ''-Iinclude'' False = Inr [''-I/proj/include'']"
  "parse_text ''/proj/.flags'' ''-I/abs/include'' False = Inr [''-I/abs/include'']"
  "parse_text ''/proj/sub/.flags''
     (''-I  /abs/./x//../include/  '' @ [CHR 0x0D, CHR 0x0A]
      @ ''-isystem sys/inc '' @ [CHR 0x0A]
      @ ''-isystem /usr/local/../include'' @ [CHR 0x0A]
      @ ''-I../inc'') True
     = Inr [''-I '' @ [CHR 0x22] @ ''/abs/include'' @ [CHR 0x22],
            ''-isystem '' @ [CHR 0x22] @ ''/proj/sub/sys/inc'' @ [CHR 0x22],
            ''-isystem '' @ [CHR 0x22] @ ''/usr/include'' @ [CHR 0x22],
            ''-I '' @ [CHR 0x22] @ ''/proj/sub/../inc'' @ [CHR 0x22]]"
  by code_simp+

text \<open>
  Claim C6.  The flags parsed from a loaded flag-list file are those of its lines, in
  order.  Of a line that is \<open>-I\<close> followed by some rest, the rest without the whitespace at
  its two ends is a path: one that begins with a slash is normalized, any other is anchored
  at the directory of the flag-list file itself, and the flag is \<open>-I\<close> with that path (in
  double quotes, after a blank, when includes are separated).  A line that begins
  \<open>-isystem\<close> is treated in the same way, the flag being trimmed once more.  So a file
  \<open>/proj/.flags\<close> with the line \<open>-Iinclude\<close> gives \<open>-I/proj/include\<close>, and with the line
  \<open>-I/abs/include\<close> it gives \<open>-I/abs/include\<close>; a path such as
  \<open>/abs/./x//../include/\<close> is brought to \<open>/abs/include\<close>, while a relative one is joined
  as it is.
\<close>

theorem flags_from_clang_file_path_resolution:
  assumes "full_path f = Some p" and "files w p = Some e"
  shows "(\<exists>w'. flags_from_clang_file w f separate_includes =
            Inr (concat (map (\<lambda>l. parse_lines (dirname p) separate_includes [l] [])
                           (readlines (content e))), w'))
       \<and> (\<forall>rest q. trimmed rest q \<longrightarrow>
             parse_lines (dirname p) separate_includes [''-I'' @ rest] []
               = [let resolved = (if \<exists>r. q = CHR ''/'' # r then normpath q
                                  else anchored (dirname p) q)
                  in if separate_includes
                     then ''-I'' @ '' '' @ [CHR 0x22] @ resolved @ [CHR 0x22]
                     else ''-I'' @ resolved])
       \<and> (\<forall>rest q flag. trimmed rest q \<longrightarrow>
             trimmed (let resolved = (if \<exists>r. q = CHR ''/'' # r then normpath q
                                      else anchored (dirname p) q)
                      in if separate_includes
                         then ''-isystem'' @ '' '' @ [CHR 0x22] @ resolved @ [CHR 0x22]
                         else ''-isystem'' @ resolved) flag \<longrightarrow>
             parse_lines (dirname p) separate_includes [''-isystem'' @ rest] [] = [flag])
       \<and> parse_text ''/proj/.flags'' ''-Iinclude'' False = Inr [''-I/proj/include'']
       \<and> parse_text ''/proj/.flags'' ''-I/abs/include'' False = Inr [''-I/abs/include'']
       \<and> parse_text ''/proj/sub/.flags''
            (''-I  /abs/./x//../include/  '' @ [CHR 0x0D, CHR 0x0A]
             @ ''-isystem sys/inc '' @ [CHR 0x0A]
             @ ''-isystem /usr/local/../include'' @ [CHR 0x0A]
             @ ''-I../inc'') True
           = Inr [''-I '' @ [CHR 0x22] @ ''/abs/include'' @ [CHR 0x22],
                  ''-isystem '' @ [CHR 0x22] @ ''/proj/sub/sys/inc'' @ [CHR 0x22],
                  ''-isystem '' @ [CHR 0x22] @ ''/usr/include'' @ [CHR 0x22],
                  ''-I '' @ [CHR 0x22] @ ''/proj/sub/../inc'' @ [CHR 0x22]]"
proof (intro conjI allI impI)
  show "\<exists>w'. flags_from_clang_file w f separate_includes =
            Inr (concat (map (\<lambda>l. parse_lines (dirname p) separate_includes [l] [])
                           (readlines (content e))), w')"
    using flags_from_clang_file_loaded [OF assms, of separate_includes]
          parse_lines_per_line [of "dirname p" separate_includes "readlines (content e)"]
    by simp
next
  fix rest q assume "trimmed rest q"
  from parse_lines_include [OF this, of "dirname p" separate_includes]
  show "parse_lines (dirname p) separate_includes [''-I'' @ rest] []
          = [let resolved = (if \<exists>r. q = CHR ''/'' # r then normpath q
                             else anchored (dirname p) q)
             in if separate_includes
                then ''-I'' @ '' '' @ [CHR 0x22] @ resolved @ [CHR 0x22]
                else ''-I'' @ resolved]"
    by (simp only: mask_format_written Let_def)
next
  fix rest q flag assume r: "trimmed rest q"
    and "trimmed (let resolved = (if \<exists>r. q = CHR ''/'' # r then normpath q
                                  else anchored (dirname p) q)
                  in if separate_includes
                     then ''-isystem'' @ '' '' @ [CHR 0x22] @ resolved @ [CHR 0x22]
                     else ''-isystem'' @ resolved) flag"
  then have "trimmed (mask_format separate_includes ''-isystem''
                        (if \<exists>r. q = CHR ''/'' # r then normpath q
                         else anchored (dirname p) q)) flag"
    by (simp only: mask_format_written Let_def)
  from parse_lines_isystem [OF r this]
  show "parse_lines (dirname p) separate_includes [''-isystem'' @ rest] [] = [flag]" .
qed (rule example_parse_text)+

lemma example_trimmed:
  "trimmed (''  inc/ude '' @ [CHR 0x0D, CHR 0x0A]) ''inc/ude''"
  "trimmed ('' /usr//lib/../include'' @ [CHR 0x0A]) ''/usr//lib/../include''"
  "trimmed ''-isystem/usr/include'' ''-isystem/usr/include''"
proof -
  show "trimmed (''  inc/ude '' @ [CHR 0x0D, CHR 0x0A]) ''inc/ude''"
    unfolding trimmed_def
    by (intro conjI exI [of _ "''  ''"] exI [of _ "[CHR '' '', CHR 0x0D, CHR 0x0A]"])
       (simp_all add: is_space_def)
  show "trimmed ('' /usr//lib/../include'' @ [CHR 0x0A]) ''/usr//lib/../include''"
    unfolding trimmed_def
    by (intro conjI exI [of _ "'' ''"] exI [of _ "[CHR 0x0A]"]) (simp_all add: is_space_def)
  show "trimmed ''-isystem/usr/include'' ''-isystem/usr/include''"
    unfolding trimmed_def
    by (intro conjI exI [of _ "[]"]) (simp_all add: is_space_def)
qed

lemma example_paths:
  "dirname ''/proj/.flags'' = ''/proj''"
  "normpath ''/usr//lib/../include'' = ''/usr/include''"
  "anchored ''/proj'' ''inc/ude'' = ''/proj/inc/ude''"
  "readlines (''-I  inc/ude '' @ [CHR 0x0D, CHR 0x0A] @ ''-isystem /usr//lib/../include''
              @ [CHR 0x0A])
     = [''-I  inc/ude '' @ [CHR 0x0A], ''-isystem /usr//lib/../include'' @ [CHR 0x0A]]"
  by code_simp+

theorem flags_from_clang_file_path_resolution_witness:
  "trimmed (''  inc/ude '' @ [CHR 0x0D, CHR 0x0A]) ''inc/ude''
   \<and> parse_lines ''/proj'' False [''-I'' @ ''  inc/ude '' @ [CHR 0x0D, CHR 0x0A]] []
       = [''-I/proj/inc/ude'']
   \<and> trimmed ('' /usr//lib/../include'' @ [CHR 0x0A]) ''/usr//lib/../include''
   \<and> parse_lines ''/proj'' False [''-isystem'' @ '' /usr//lib/../include'' @ [CHR 0x0A]] []
       = [''-isystem/usr/include'']
   \<and> (\<exists>w'. flags_from_clang_file
              (world_with [(''/proj/.flags'',
                 ''-I  inc/ude '' @ [CHR 0x0D, CHR 0x0A] @ ''-isystem /usr//lib/../include''
                 @ [CHR 0x0A])])
              \<lparr>full_path = Some ''/proj/.flags'', last_seen = 0\<rparr> False
            = Inr ([''-I/proj/inc/ude'', ''-isystem/usr/include''], w'))"
proof -
  let ?text = "''-I  inc/ude '' @ [CHR 0x0D, CHR 0x0A] @ ''-isystem /usr//lib/../include''
                 @ [CHR 0x0A]"
  let ?f = "\<lparr>full_path = Some ''/proj/.flags'', last_seen = 0\<rparr>"
  let ?w = "world_with [(''/proj/.flags'', ?text)]"
  have p: "full_path ?f = Some ''/proj/.flags''" by simp
  have e: "files ?w ''/proj/.flags'' = Some \<lparr>content = ?text, mtime = 1\<rparr>"
    by (simp add: world_with_def)
  note t = flags_from_clang_file_path_resolution [OF p e, of False]
  note whole = t [THEN conjunct1]
  note incl = t [THEN conjunct2, THEN conjunct1, THEN spec, THEN spec, THEN mp,
                 OF example_trimmed(1)]
  have sys_flag: "trimmed (let resolved = (if \<exists>r. ''/usr//lib/../include'' = CHR ''/'' # r
                                         then normpath ''/usr//lib/../include''
                                         else anchored (dirname ''/proj/.flags'')
                                                ''/usr//lib/../include'')
                      in if False
                         then ''-isystem'' @ '' '' @ [CHR 0x22] @ resolved @ [CHR 0x22]
                         else ''-isystem'' @ resolved) ''-isystem/usr/include''"
    using example_trimmed(3) by (simp add: example_paths)
  note sys = t [THEN conjunct2, THEN conjunct2, THEN conjunct1, THEN spec, THEN spec,
                THEN spec, THEN mp, THEN mp, OF example_trimmed(2) sys_flag]
  have a: "parse_lines ''/proj'' False [''-I'' @ ''  inc/ude '' @ [CHR 0x0D, CHR 0x0A]] []
             = [''-I/proj/inc/ude'']"
    using incl by (simp add: example_paths)
  have b: "parse_lines ''/proj'' False
             [''-isystem'' @ '' /usr//lib/../include'' @ [CHR 0x0A]] []
             = [''-isystem/usr/include'']"
    using sys by (simp add: example_paths)
  have c: "\<exists>w'. flags_from_clang_file ?w ?f False
                 = Inr ([''-I/proj/inc/ude'', ''-isystem/usr/include''], w')"
  proof -
    have "concat (map (\<lambda>l. parse_lines (dirname ''/proj/.flags'') False [l] [])
                    (readlines (content \<lparr>content = ?text, mtime = 1\<rparr>)))
            = [''-I/proj/inc/ude'', ''-isystem/usr/include'']"
      by code_simp
    with whole show ?thesis by (simp only:)
  qed
  from example_trimmed(1,2) a b c show ?thesis by blast
qed

text \<open>
  Claim C8.  For a file reference whose path is not bound, \<open>flags_from_clang_file\<close> returns
  the empty list, whatever \<open>separate_includes\<close> is; it raises nothing, and all it does
  besides is to append one record of level \<open>ERROR\<close> to the log: files, directories and
  clock are as before.
\<close>

theorem flags_from_clang_file_unloaded:
  assumes "full_path file = None"
  shows "flags_from_clang_file w file separate_includes =
           Inr ([], w\<lparr>log := log w @
                  [(ERROR, '' cannot get flags from clang_complete_file. No file.'')]\<rparr>)"
  using assms by (simp add: flags_from_clang_file_def loaded_def log_msg_def)

theorem flags_from_clang_file_unloaded_witness:
  "full_path File_empty = None
   \<and> flags_from_clang_file (world_with []) File_empty True =
       Inr ([], \<lparr>files = Map.empty, dirs = {}, now = 1,
                log = [(ERROR, '' cannot get flags from clang_complete_file. No file.'')]\<rparr>)
   \<and> flags_from_clang_file (world_with []) File_empty False =
       Inr ([], \<lparr>files = Map.empty, dirs = {}, now = 1,
                log = [(ERROR, '' cannot get flags from clang_complete_file. No file.'')]\<rparr>)"
proof -
  have n: "full_path File_empty = None" by (simp add: File_empty_def)
  show ?thesis
    using n flags_from_clang_file_unloaded [OF n, of "world_with []" True]
          flags_from_clang_file_unloaded [OF n, of "world_with []" False]
    by (simp add: world_with_def)
qed

text \<open>
  Claim C7, as stated, fails: on a database file whose text is not JSON, \<open>json.load\<close>
  raises \<open>ValueError\<close>, and \<open>flags_from_database\<close> has no handler for it.
\<close>

theorem flags_from_database_malformed_raises:
  "flags_from_database example_env (world_with [(example_db_path, ''{'')]) example_db_file
     = Inl ValueError"
  by (simp add: flags_from_database_def example_db_file_def world_with_def example_env_def
        example_json_load_def example_db_text_def)

text \<open>
  Claim C7, amended.  On a database file whose text \<open>json.load\<close> parses to an empty value
  (\<open>null\<close>, \<open>false\<close>, \<open>0\<close>, an empty string, array or object), \<open>flags_from_database\<close>
  returns \<open>None\<close> and raises nothing; on a text that is not JSON the \<open>ValueError\<close> of
  \<open>json.load\<close> reaches the caller.
\<close>

theorem flags_from_database_unusable:
  assumes "full_path f = Some p" and "files w p = Some e"
  shows "(json_load ev (content e) = None \<longrightarrow> flags_from_database ev w f = Inl ValueError)
       \<and> (\<forall>data. json_load ev (content e) = Some data \<longrightarrow> \<not> truthy data
             \<longrightarrow> flags_from_database ev w f = Inr (None, w))"
  using assms by (simp add: flags_from_database_def flags_from_data_def)

theorem flags_from_database_unusable_witness:
  "flags_from_database example_env (world_with [(example_db_path, ''[]'')]) example_db_file
     = Inr (None, world_with [(example_db_path, ''[]'')])
   \<and> flags_from_database example_env (world_with [(example_db_path, ''not json'')])
        example_db_file = Inl ValueError"
proof -
  have p: "full_path example_db_file = Some example_db_path"
    by (simp add: example_db_file_def)
  have e: "files (world_with [(example_db_path, ''[]'')]) example_db_path
             = Some \<lparr>content = ''[]'', mtime = 1\<rparr>"
    by (simp add: world_with_def)
  have m: "files (world_with [(example_db_path, ''not json'')]) example_db_path
             = Some \<lparr>content = ''not json'', mtime = 1\<rparr>"
    by (simp add: world_with_def)
  have le: "json_load example_env (content \<lparr>content = ''[]'', mtime = 1\<rparr>) = Some (JArr [])"
    by (simp add: example_env_def example_json_load_def example_db_text_def)
  have lm: "json_load example_env (content \<lparr>content = ''not json'', mtime = 1\<rparr>) = None"
    by (simp add: example_env_def example_json_load_def example_db_text_def)
  show ?thesis
    using flags_from_database_unusable [OF p e, of example_env]
          flags_from_database_unusable [OF p m, of example_env] le lm
    by simp
qed

section \<open>Properties of the writer\<close>


lemma set_foldl_set_add: "set (foldl (\<lambda>s x. set_add x s) a b) = set a \<union> set b"
  by (induction b arbitrary: a) (auto simp: set_set_add)

lemma set_set_union: "set (set_union a b) = set a \<union> set b"
  by (simp add: set_union_def set_foldl_set_add)

lemma set_set_of_list: "set (set_of_list xs) = set xs"
  by (simp add: set_of_list_def set_foldl_set_add)

lemma path_exists_log_msg [simp]: "path_exists (log_msg lvl msg w) p = path_exists w p"
  by (simp add: path_exists_def)

lemma File_at_log_msg [simp]: "File_at (log_msg lvl msg w) p = File_at w p"
  by (simp add: File_at_def)

lemma File_at_existing: "files w p = Some e \<Longrightarrow> File_at w p = \<lparr>full_path = Some p, last_seen = 0\<rparr>"
  by (simp add: File_at_def)

lemma write_file_ok:
  "writable w p \<Longrightarrow>
   \<exists>w'. write_file w p text = Inr w'
      \<and> files w' = (files w)(p \<mapsto> \<lparr>content = text, mtime = Suc (now w)\<rparr>)
      \<and> dirs w' = dirs w \<and> now w' = Suc (now w)"
  by (auto simp: write_file_def writable_def)

lemma write_file_refused: "\<not> writable w p \<Longrightarrow> \<exists>e. write_file w p text = Inl e"
  by (auto simp: write_file_def writable_def)

lemma writable_log_msg [simp]: "writable (log_msg lvl msg w) p = writable w p"
  by (simp add: writable_def)

lemma str_join_newline:
  "xs \<noteq> [] \<Longrightarrow> str_join [newline] xs @ [newline] = concat (map (\<lambda>x. x @ [newline]) xs)"
  by (induction "[newline]" xs rule: str_join.induct) simp_all

lemma flags_text_newline_joined: "flags_text xs = newline_joined xs"
  using str_join_newline [of xs]
  by (cases "xs = []") (simp_all add: flags_text_def newline_joined_def newline_def)

lemma distinct_foldl_set_add:
  "distinct a \<Longrightarrow> distinct (foldl (\<lambda>s x. set_add x s) a b)"
  by (induction b arbitrary: a) (simp_all add: distinct_set_add)

lemma distinct_set_union: "distinct a \<Longrightarrow> distinct (set_union a b)"
  by (simp add: set_union_def distinct_foldl_set_add)

lemma write_flags_to_file_absent:
  assumes "writable w file_path" and "files w file_path = None"
  shows "\<exists>w'. write_flags_to_file pick w new_flags file_path strategy = Inr w'
           \<and> files w' = (files w)(file_path \<mapsto>
                 \<lparr>content = flags_text new_flags, mtime = Suc (now w)\<rparr>)
           \<and> dirs w' = dirs w"
proof -
  from assms have "\<not> path_exists w file_path" by (simp add: path_exists_def writable_def)
  then have "write_flags_to_file pick w new_flags file_path strategy
               = write_file w file_path (flags_text new_flags)"
    by (simp add: write_flags_to_file_def)
  with write_file_ok [OF assms(1), of "flags_text new_flags"] show ?thesis by auto
qed

lemma write_flags_to_file_keep_old:
  assumes "files w file_path = Some e" and "get_flags_strategy pick strategy = ''keep_old''"
  shows "\<exists>w'. write_flags_to_file pick w new_flags file_path strategy = Inr w'
           \<and> files w' = files w \<and> dirs w' = dirs w \<and> now w' = now w"
proof -
  from assms(1) have "path_exists w file_path" by (simp add: path_exists_def)
  with assms(2) show ?thesis by (simp add: write_flags_to_file_def Let_def)
qed

lemma write_flags_to_file_merge:
  assumes "writable w file_path" and "files w file_path = Some e"
    and "get_flags_strategy pick strategy = ''merge''"
  shows "\<exists>w' merged. write_flags_to_file pick w new_flags file_path strategy = Inr w'
           \<and> files w' = (files w)(file_path \<mapsto>
                 \<lparr>content = flags_text merged, mtime = Suc (now w)\<rparr>)
           \<and> dirs w' = dirs w
           \<and> set merged = set new_flags
                \<union> set (parse_lines (dirname file_path) False (readlines (content e)) [])
           \<and> (distinct new_flags \<longrightarrow> distinct merged)"
proof -
  let ?w2 = "log_msg DEBUG '' picked '%s' strategy.'' (log_msg DEBUG '' path already exists'' w)"
  let ?curr = "parse_lines (dirname file_path) False (readlines (content e)) []"
  let ?w3 = "log_msg DEBUG '' .clang_complete contains flags: %s'' ?w2"
  let ?merged = "set_union new_flags (set_of_list ?curr)"
  from assms(2) have ex: "path_exists w file_path" by (simp add: path_exists_def)
  have fa: "File_at ?w2 file_path = \<lparr>full_path = Some file_path, last_seen = 0\<rparr>"
    using assms(2) by (simp add: File_at_existing)
  have rd: "flags_from_clang_file ?w2 (File_at ?w2 file_path) False = Inr (?curr, ?w3)"
    unfolding fa using assms(2) by (simp add: flags_from_clang_file_loaded)
  have eq: "write_flags_to_file pick w new_flags file_path strategy
            = write_file ?w3 file_path (flags_text ?merged)"
    using ex assms(3) rd by (simp add: write_flags_to_file_def Let_def)
  have "writable ?w3 file_path" using assms(1) by simp
  from write_file_ok [OF this, of "flags_text ?merged"]
  obtain w' where w': "write_file ?w3 file_path (flags_text ?merged) = Inr w'"
    "files w' = (files w)(file_path \<mapsto> \<lparr>content = flags_text ?merged, mtime = Suc (now w)\<rparr>)"
    "dirs w' = dirs w"
    by auto
  have "set ?merged = set new_flags \<union> set ?curr"
    by (simp add: set_set_union set_set_of_list)
  moreover have "distinct new_flags \<longrightarrow> distinct ?merged"
    by (simp add: distinct_set_union)
  ultimately show ?thesis using eq w' by metis
qed

lemma write_flags_to_file_overwrite:
  assumes "writable w file_path" and "files w file_path = Some e"
    and "get_flags_strategy pick strategy = ''overwrite''"
  shows "\<exists>w'. write_flags_to_file pick w new_flags file_path strategy = Inr w'
           \<and> files w' = (files w)(file_path \<mapsto>
                 \<lparr>content = flags_text new_flags, mtime = Suc (now w)\<rparr>)
           \<and> dirs w' = dirs w"
proof -
  let ?w2 = "log_msg DEBUG '' picked '%s' strategy.'' (log_msg DEBUG '' path already exists'' w)"
  from assms(2) have ex: "path_exists w file_path" by (simp add: path_exists_def)
  have eq: "write_flags_to_file pick w new_flags file_path strategy
            = write_file ?w2 file_path (flags_text new_flags)"
    using ex assms(3) by (simp add: write_flags_to_file_def Let_def)
  have "writable ?w2 file_path" using assms(1) by simp
  from write_file_ok [OF this, of "flags_text new_flags"] eq show ?thesis by auto
qed

lemma write_flags_to_file_refused:
  assumes "\<not> writable w file_path" and "files w file_path = None" and "file_path \<notin> dirs w"
  shows "\<exists>err. write_flags_to_file pick w new_flags file_path strategy = Inl err"
proof -
  from assms(2,3) have "\<not> path_exists w file_path" by (simp add: path_exists_def)
  then have "write_flags_to_file pick w new_flags file_path strategy
               = write_file w file_path (flags_text new_flags)"
    by (simp add: write_flags_to_file_def)
  with write_file_refused [OF assms(1), of "flags_text new_flags"] show ?thesis by simp
qed

text \<open>
  Claim C4.  \<open>write_flags_to_file\<close> on a path at which a file can be opened for writing:
  where no file is, the text written is the new flags, each followed by a newline (the
  newline alone when there are no flags), whatever the strategy; where a file is, the
  strategy (the user's answer when it is \<open>ask\<close>) decides: \<open>keep_old\<close> writes nothing,
  \<open>merge\<close> writes in the same way the union, without duplicates, of the new flags with the
  flags parsed from the file without include separation, \<open>overwrite\<close> writes the new
  flags alone.
\<close>

theorem write_flags_to_file_strategies:
  assumes "writable w file_path"
  shows "(files w file_path = None \<longrightarrow>
           (\<exists>w'. write_flags_to_file pick w new_flags file_path strategy = Inr w'
              \<and> files w' = (files w)(file_path \<mapsto>
                    \<lparr>content = newline_joined new_flags, mtime = Suc (now w)\<rparr>)
              \<and> dirs w' = dirs w))
       \<and> (\<forall>e. files w file_path = Some e \<longrightarrow>
            (get_flags_strategy pick strategy = ''keep_old'' \<longrightarrow>
               (\<exists>w'. write_flags_to_file pick w new_flags file_path strategy = Inr w'
                  \<and> files w' = files w \<and> dirs w' = dirs w \<and> now w' = now w))
          \<and> (get_flags_strategy pick strategy = ''merge'' \<longrightarrow>
               (\<exists>w' merged. write_flags_to_file pick w new_flags file_path strategy = Inr w'
                  \<and> files w' = (files w)(file_path \<mapsto>
                        \<lparr>content = newline_joined merged, mtime = Suc (now w)\<rparr>)
                  \<and> dirs w' = dirs w
                  \<and> set merged = set new_flags
                       \<union> set (parse_lines (dirname file_path) False (readlines (content e)) [])
                  \<and> (distinct new_flags \<longrightarrow> distinct merged)))
          \<and> (get_flags_strategy pick strategy = ''overwrite'' \<longrightarrow>
               (\<exists>w'. write_flags_to_file pick w new_flags file_path strategy = Inr w'
                  \<and> files w' = (files w)(file_path \<mapsto>
                        \<lparr>content = newline_joined new_flags, mtime = Suc (now w)\<rparr>)
                  \<and> dirs w' = dirs w)))"
proof (intro conjI impI allI)
  assume "files w file_path = None"
  from write_flags_to_file_absent [OF assms this, of pick new_flags strategy]
  show "\<exists>w'. write_flags_to_file pick w new_flags file_path strategy = Inr w'
              \<and> files w' = (files w)(file_path \<mapsto>
                    \<lparr>content = newline_joined new_flags, mtime = Suc (now w)\<rparr>)
              \<and> dirs w' = dirs w"
    by (simp only: flags_text_newline_joined)
next
  fix e assume e: "files w file_path = Some e"
  and "get_flags_strategy pick strategy = ''keep_old''"
  from write_flags_to_file_keep_old [OF this, of new_flags]
  show "\<exists>w'. write_flags_to_file pick w new_flags file_path strategy = Inr w'
                  \<and> files w' = files w \<and> dirs w' = dirs w \<and> now w' = now w" .
next
  fix e assume e: "files w file_path = Some e"
  and "get_flags_strategy pick strategy = ''merge''"
  from write_flags_to_file_merge [OF assms this, of new_flags]
  show "\<exists>w' merged. write_flags_to_file pick w new_flags file_path strategy = Inr w'
                  \<and> files w' = (files w)(file_path \<mapsto>
                        \<lparr>content = newline_joined merged, mtime = Suc (now w)\<rparr>)
                  \<and> dirs w' = dirs w
                  \<and> set merged = set new_flags
                       \<union> set (parse_lines (dirname file_path) False (readlines (content e)) [])
                  \<and> (distinct new_flags \<longrightarrow> distinct merged)"
    by (simp only: flags_text_newline_joined)
next
  fix e assume e: "files w file_path = Some e"
  and "get_flags_strategy pick strategy = ''overwrite''"
  from write_flags_to_file_overwrite [OF assms this, of new_flags]
  show "\<exists>w'. write_flags_to_file pick w new_flags file_path strategy = Inr w'
                  \<and> files w' = (files w)(file_path \<mapsto>
                        \<lparr>content = newline_joined new_flags, mtime = Suc (now w)\<rparr>)
                  \<and> dirs w' = dirs w"
    by (simp only: flags_text_newline_joined)
qed

lemma example_old_flags:
  "parse_lines (dirname example_flag_path) False (readlines ''-DOLD'') [] = [''-DOLD'']"
  by code_simp

lemma example_writable:
  "writable project_world example_flag_path"
  "writable (world_with [(example_flag_path, ''-DOLD'')]) example_flag_path"
  by code_simp+

lemma distinct_pair:
  assumes "distinct xs" and "set xs = {a, b}" and "a \<noteq> b"
  shows "xs = [a, b] \<or> xs = [b, a]"
proof -
  from assms have "length xs = 2"
    by (metis card_2_iff distinct_card)
  then obtain x y where xs: "xs = [x, y]"
    by (metis (no_types) One_nat_def Suc_1 length_0_conv length_Suc_conv)
  with assms(2) have "{x, y} = {a, b}" by simp
  with xs show ?thesis by (auto simp: doubleton_eq_iff)
qed

theorem write_flags_to_file_strategies_witness:
  "writable project_world example_flag_path
   \<and> (\<exists>w'. write_flags_to_file DIALOG_NO project_world [''-DNEW'', ''-Iinc''] example_flag_path
              ''keep_old'' = Inr w'
         \<and> files w' example_flag_path
              = Some \<lparr>content = ''-DNEW'' @ [CHR 0x0A] @ ''-Iinc'' @ [CHR 0x0A], mtime = 2\<rparr>)
   \<and> (\<exists>w'. write_flags_to_file DIALOG_NO (world_with [(example_flag_path, ''-DOLD'')])
              [''-DNEW''] example_flag_path ''keep_old'' = Inr w'
         \<and> files w' example_flag_path = Some \<lparr>content = ''-DOLD'', mtime = 1\<rparr>)
   \<and> (\<exists>w' text. write_flags_to_file DIALOG_NO (world_with [(example_flag_path, ''-DOLD'')])
              [''-DNEW''] example_flag_path ''merge'' = Inr w'
         \<and> files w' example_flag_path = Some \<lparr>content = text, mtime = 2\<rparr>
         \<and> (text = ''-DNEW'' @ [CHR 0x0A] @ ''-DOLD'' @ [CHR 0x0A]
              \<or> text = ''-DOLD'' @ [CHR 0x0A] @ ''-DNEW'' @ [CHR 0x0A]))
   \<and> (\<exists>w'. write_flags_to_file DIALOG_NO (world_with [(example_flag_path, ''-DOLD'')])
              [''-DNEW''] example_flag_path ''ask'' = Inr w'
         \<and> files w' example_flag_path
              = Some \<lparr>content = ''-DNEW'' @ [CHR 0x0A], mtime = 2\<rparr>)"
proof -
  let ?w0 = project_world
  let ?w1 = "world_with [(example_flag_path, ''-DOLD'')]"
  note d0 = example_writable(1) and d1 = example_writable(2)
  have f0: "files ?w0 example_flag_path = None"
    by (simp add: project_world_def world_with_def example_flag_path_def)
  have f1: "files ?w1 example_flag_path = Some \<lparr>content = ''-DOLD'', mtime = 1\<rparr>"
    by (simp add: world_with_def)
  have n0: "now ?w0 = 1" and n1: "now ?w1 = 1"
    by (simp_all add: world_with_def project_world_def)
  have s_keep: "get_flags_strategy DIALOG_NO ''keep_old'' = ''keep_old''"
    and s_merge: "get_flags_strategy DIALOG_NO ''merge'' = ''merge''"
    and s_ask: "get_flags_strategy DIALOG_NO ''ask'' = ''overwrite''"
    by (simp_all add: get_flags_strategy_def)
  note absent = write_flags_to_file_strategies
                  [OF d0, of DIALOG_NO "[''-DNEW'', ''-Iinc'']" "''keep_old''",
                   THEN conjunct1, THEN mp, OF f0]
  note keep = write_flags_to_file_strategies
                [OF d1, of DIALOG_NO "[''-DNEW'']" "''keep_old''", THEN conjunct2, THEN spec,
                 THEN mp, OF f1, THEN conjunct1, THEN mp, OF s_keep]
  note merge = write_flags_to_file_strategies
                 [OF d1, of DIALOG_NO "[''-DNEW'']" "''merge''", THEN conjunct2, THEN spec,
                  THEN mp, OF f1, THEN conjunct2, THEN conjunct1, THEN mp, OF s_merge]
  note over = write_flags_to_file_strategies
                [OF d1, of DIALOG_NO "[''-DNEW'']" "''ask''", THEN conjunct2, THEN spec,
                 THEN mp, OF f1, THEN conjunct2, THEN conjunct2, THEN mp, OF s_ask]
  have a: "\<exists>w'. write_flags_to_file DIALOG_NO ?w0 [''-DNEW'', ''-Iinc''] example_flag_path
              ''keep_old'' = Inr w'
         \<and> files w' example_flag_path
              = Some \<lparr>content = ''-DNEW'' @ [CHR 0x0A] @ ''-Iinc'' @ [CHR 0x0A], mtime = 2\<rparr>"
  proof -
    from absent obtain w' where
      "write_flags_to_file DIALOG_NO ?w0 [''-DNEW'', ''-Iinc''] example_flag_path ''keep_old''
         = Inr w'"
      "files w' = (files ?w0)(example_flag_path \<mapsto>
                     \<lparr>content = newline_joined [''-DNEW'', ''-Iinc''], mtime = Suc (now ?w0)\<rparr>)"
      by blast
    then show ?thesis by (simp add: n0 newline_joined_def)
  qed
  have b: "\<exists>w'. write_flags_to_file DIALOG_NO ?w1 [''-DNEW''] example_flag_path
              ''keep_old'' = Inr w'
         \<and> files w' example_flag_path = Some \<lparr>content = ''-DOLD'', mtime = 1\<rparr>"
  proof -
    from keep obtain w' where
      "write_flags_to_file DIALOG_NO ?w1 [''-DNEW''] example_flag_path ''keep_old'' = Inr w'"
      "files w' = files ?w1"
      by blast
    then show ?thesis by (simp add: f1)
  qed
  have c: "\<exists>w' text. write_flags_to_file DIALOG_NO ?w1 [''-DNEW''] example_flag_path
              ''merge'' = Inr w'
         \<and> files w' example_flag_path = Some \<lparr>content = text, mtime = 2\<rparr>
         \<and> (text = ''-DNEW'' @ [CHR 0x0A] @ ''-DOLD'' @ [CHR 0x0A]
              \<or> text = ''-DOLD'' @ [CHR 0x0A] @ ''-DNEW'' @ [CHR 0x0A])"
  proof -
    from merge obtain w' merged where m:
      "write_flags_to_file DIALOG_NO ?w1 [''-DNEW''] example_flag_path ''merge'' = Inr w'"
      "files w' = (files ?w1)(example_flag_path \<mapsto>
                     \<lparr>content = newline_joined merged, mtime = Suc (now ?w1)\<rparr>)"
      "set merged = set [''-DNEW'']
         \<union> set (parse_lines (dirname example_flag_path) False
                  (readlines (content \<lparr>content = ''-DOLD'', mtime = 1\<rparr>)) [])"
      "distinct [''-DNEW''] \<longrightarrow> distinct merged"
      by blast
    from m(3) have "set merged = {''-DNEW'', ''-DOLD''}"
      by (simp add: example_old_flags insert_commute)
    moreover from m(4) have "distinct merged" by simp
    ultimately have "merged = [''-DNEW'', ''-DOLD''] \<or> merged = [''-DOLD'', ''-DNEW'']"
      by (intro distinct_pair) simp_all
    then have "newline_joined merged = ''-DNEW'' @ [CHR 0x0A] @ ''-DOLD'' @ [CHR 0x0A]
        \<or> newline_joined merged = ''-DOLD'' @ [CHR 0x0A] @ ''-DNEW'' @ [CHR 0x0A]"
      by (auto simp: newline_joined_def)
    moreover from m(2) have "files w' example_flag_path
        = Some \<lparr>content = newline_joined merged, mtime = 2\<rparr>"
      by (simp add: n1)
    ultimately show ?thesis using m(1) by blast
  qed
  have d: "\<exists>w'. write_flags_to_file DIALOG_NO ?w1 [''-DNEW''] example_flag_path
              ''ask'' = Inr w'
         \<and> files w' example_flag_path = Some \<lparr>content = ''-DNEW'' @ [CHR 0x0A], mtime = 2\<rparr>"
  proof -
    from over obtain w' where
      "write_flags_to_file DIALOG_NO ?w1 [''-DNEW''] example_flag_path ''ask'' = Inr w'"
      "files w' = (files ?w1)(example_flag_path \<mapsto>
                     \<lparr>content = newline_joined [''-DNEW''], mtime = Suc (now ?w1)\<rparr>)"
      by blast
    then show ?thesis by (simp add: n1 newline_joined_def)
  qed
  from d0 a b c d show ?thesis by blast
qed

section \<open>Properties of the round trip\<close>


lemma universal_newlines_id: "carriage_return \<notin> set s \<Longrightarrow> universal_newlines s = s"
  by (induction s rule: universal_newlines.induct) auto

lemma lines_from_line:
  "newline \<notin> set f \<Longrightarrow>
   lines_from cur (f @ newline # rest) = (rev cur @ f @ [newline]) # lines_from [] rest"
  by (induction f arbitrary: cur) auto

lemma lines_from_flags_text:
  "fl \<noteq> [] \<Longrightarrow> \<forall>f\<in>set fl. newline \<notin> set f \<Longrightarrow>
   lines_from [] (str_join [newline] fl @ [newline]) = map (\<lambda>f. f @ [newline]) fl"
proof (induction "[newline]" fl rule: str_join.induct)
  case 1
  then show ?case by simp
next
  case (2 x)
  then show ?case using lines_from_line [of x "[]" "[]"] by simp
next
  case (3 x y ys)
  then have "lines_from [] (str_join [newline] (y # ys) @ [newline])
               = map (\<lambda>f. f @ [newline]) (y # ys)"
    by simp
  moreover have "newline \<notin> set x" using 3 by simp
  ultimately show ?case
    using lines_from_line [of x "[]" "str_join [newline] (y # ys) @ [newline]"]
    by simp
qed

lemma set_str_join: "set (str_join sep fl) \<subseteq> set sep \<union> (\<Union>f\<in>set fl. set f)"
  by (induction sep fl rule: str_join.induct) auto

lemma readlines_flags_text:
  assumes "fl \<noteq> []" "\<forall>f\<in>set fl. newline \<notin> set f \<and> carriage_return \<notin> set f"
  shows "readlines (flags_text fl) = map (\<lambda>f. f @ [newline]) fl"
proof -
  have "carriage_return \<notin> set (flags_text fl)"
    using assms(2) set_str_join [of "[newline]" fl]
    by (auto simp: flags_text_def newline_def carriage_return_def)
  then have "universal_newlines (flags_text fl) = flags_text fl"
    by (rule universal_newlines_id)
  then show ?thesis
    using lines_from_flags_text [OF assms(1)] assms(2)
    by (simp add: readlines_def flags_text_def)
qed

lemma startswith_iff: "startswith p f \<longleftrightarrow> (\<exists>r. f = p @ r)"
proof
  assume "startswith p f"
  then have "f = p @ drop (length p) f"
    by (metis append_take_drop_id startswith_def)
  then show "\<exists>r. f = p @ r" ..
next
  assume "\<exists>r. f = p @ r"
  then show "startswith p f" by (auto simp: startswith_def)
qed

lemma strip_newline:
  assumes "f \<noteq> []" "\<not> is_space (hd f)" "\<not> is_space (last f)"
  shows "strip (f @ [newline]) = f"
proof -
  have nl: "is_space newline" by (simp add: is_space_def newline_def)
  from assms have 1: "dropWhile is_space (f @ [newline]) = f @ [newline]"
    by (cases f) auto
  from assms have "rev f \<noteq> []" "\<not> is_space (hd (rev f))"
    by (auto simp: hd_rev)
  then have "dropWhile is_space (rev f) = rev f"
    by (cases "rev f") auto
  with 1 nl show ?thesis by (simp add: strip_def)
qed

lemma not_space_dash: "\<not> is_space CHR ''-''" and not_space_slash: "\<not> is_space CHR ''/''"
  by (simp_all add: is_space_def)

lemma line_flags_stable:
  assumes "stable_flag f"
  shows "line_flags dir False (f @ [newline]) = [f]"
proof -
  from assms have ne: "f \<noteq> []" and lst: "\<not> is_space (last f)"
    by (simp_all add: stable_flag_def)
  from assms consider
      (D) "startswith ''-D'' f"
    | (I) "startswith ''-I'' f" "isabs (drop 2 f)" "normpath (drop 2 f) = drop 2 f"
    | (S) "startswith ''-isystem'' f" "isabs (drop 8 f)" "normpath (drop 8 f) = drop 8 f"
    unfolding stable_flag_def by blast
  then show ?thesis
  proof cases
    case D
    then obtain r where f: "f = ''-D'' @ r" using startswith_iff by blast
    then have "\<not> is_space (hd f)" by (simp add: not_space_dash)
    from strip_newline [OF ne this lst] have "strip (f @ [newline]) = f" .
    moreover have "startswith ''-D'' (f @ [newline])" using f by (simp add: startswith_def)
    ultimately show ?thesis by (simp add: line_flags_def)
  next
    case I
    then obtain r where f: "f = ''-I'' @ r" using startswith_iff by blast
    with I(2,3) have r: "isabs r" "normpath r = r" by simp_all
    then obtain r' where r': "r = ''/'' @ r'" unfolding isabs_def using startswith_iff by blast
    have "r \<noteq> []" "\<not> is_space (hd r)" "\<not> is_space (last r)"
      using r' lst f by (auto simp: not_space_slash)
    then have st: "strip (r @ [newline]) = r" by (rule strip_newline)
    have "\<not> startswith ''-D'' (f @ [newline])" "startswith ''-I'' (f @ [newline])"
      using f by (simp_all add: startswith_def)
    moreover have "drop 2 (f @ [newline]) = r @ [newline]" using f by simp
    ultimately show ?thesis
      using st r f by (simp add: line_flags_def resolve_def mask_format_def)
  next
    case S
    then obtain r where f: "f = ''-isystem'' @ r" using startswith_iff by blast
    with S(2,3) have r: "isabs r" "normpath r = r" by simp_all
    then obtain r' where r': "r = ''/'' @ r'" unfolding isabs_def using startswith_iff by blast
    have "r \<noteq> []" "\<not> is_space (hd r)" "\<not> is_space (last r)"
      using r' lst f by (auto simp: not_space_slash)
    then have st: "strip (r @ [newline]) = r" by (rule strip_newline)
    have "\<not> is_space (hd f)" using f by (simp add: not_space_dash)
    then have sf: "strip f = f" using ne lst by (intro strip_id) auto
    have "\<not> startswith ''-D'' (f @ [newline])" "\<not> startswith ''-I'' (f @ [newline])"
         "startswith ''-isystem'' (f @ [newline])"
      using f by (simp_all add: startswith_def)
    moreover have "drop 8 (f @ [newline]) = r @ [newline]" using f by simp
    ultimately show ?thesis
      using st r f sf by (simp add: line_flags_def resolve_def mask_format_def)
  qed
qed

lemma parse_flags_text:
  assumes "\<forall>f\<in>set fl. stable_flag f"
  shows "parse_lines dir False (readlines (flags_text fl)) [] = fl"
proof (cases "fl = []")
  case True
  have "readlines (flags_text []) = [[newline]]"
    by (simp add: readlines_def flags_text_def newline_def carriage_return_def)
  moreover have "line_flags dir False [newline] = []"
    by (simp add: line_flags_def startswith_def newline_def)
  ultimately show ?thesis using True by (simp add: parse_lines_line_flags)
next
  case False
  from assms have "\<forall>f\<in>set fl. newline \<notin> set f \<and> carriage_return \<notin> set f"
    by (simp add: stable_flag_def)
  from readlines_flags_text [OF False this]
  have "parse_lines dir False (readlines (flags_text fl)) []
          = concat (map (\<lambda>f. line_flags dir False (f @ [newline])) fl)"
    by (simp add: parse_lines_line_flags comp_def)
  also have "\<dots> = concat (map (\<lambda>f. [f]) fl)"
    using assms line_flags_stable by (intro arg_cong [where f = concat] map_cong) auto
  also have "\<dots> = fl" by (induction fl) auto
  finally show ?thesis .
qed

lemma overwrite_written:
  assumes "writable w file_path"
  shows "\<exists>w'. write_flags_to_file pick w flag_set file_path ''overwrite'' = Inr w'
           \<and> files w' file_path
                = Some \<lparr>content = flags_text flag_set, mtime = Suc (now w)\<rparr>"
proof (cases "files w file_path")
  case None
  from write_flags_to_file_absent [OF assms None, of pick flag_set "''overwrite''"]
  show ?thesis by auto
next
  case (Some e)
  have s: "get_flags_strategy pick ''overwrite'' = ''overwrite''"
    by (simp add: get_flags_strategy_def)
  from write_flags_to_file_overwrite [OF assms Some s, of flag_set]
  show ?thesis by auto
qed

lemma overwrite_then_parse_written:
  assumes "writable w file_path"
  shows "overwrite_then_parse pick w flag_set file_path
           = Inr (parse_lines (dirname file_path) False (readlines (flags_text flag_set)) [])"
proof -
  from overwrite_written [OF assms, of pick flag_set]
  obtain w' where w': "write_flags_to_file pick w flag_set file_path ''overwrite'' = Inr w'"
      "files w' file_path = Some \<lparr>content = flags_text flag_set, mtime = Suc (now w)\<rparr>"
    by auto
  from File_at_existing [OF w'(2)]
  have "flags_from_clang_file w' (File_at w' file_path) False
          = Inr (parse_lines (dirname file_path) False (readlines (flags_text flag_set)) [],
                 log_msg DEBUG '' .clang_complete contains flags: %s'' w')"
    using flags_from_clang_file_loaded [OF _ w'(2), of "File_at w' file_path" False] by simp
  with w'(1) show ?thesis by (simp add: overwrite_then_parse_def)
qed

lemma overwrite_then_parse_refused:
  assumes "\<not> writable w file_path" and "files w file_path = None" and "file_path \<notin> dirs w"
  shows "\<exists>err. overwrite_then_parse pick w flag_set file_path = Inl err"
  using write_flags_to_file_refused [OF assms, of pick flag_set "''overwrite''"]
  by (auto simp: overwrite_then_parse_def)

text \<open>
  Claim C3, amended.  At a path where a file can be opened for writing, a set of flags of
  which each has no line break, does not end in whitespace, and is a define or \<open>-I\<close> or
  \<open>-isystem\<close> directly followed by an absolute path in normal form, is read back unchanged
  after it was written with \<open>overwrite\<close>.
\<close>

theorem overwrite_then_parse_stable:
  assumes "writable w file_path" and "\<forall>f\<in>set flag_set. stable_flag f"
  shows "\<exists>parsed. overwrite_then_parse pick w flag_set file_path = Inr parsed
           \<and> set parsed = set flag_set"
  by (simp add: overwrite_then_parse_written [OF assms(1)] parse_flags_text [OF assms(2)])


text \<open>
  Claim C3, as stated, fails: a relative include path is read back joined to the directory
  of the flag-list file, so the set read differs from the set written.
\<close>

theorem overwrite_then_parse_relative_include:
  "overwrite_then_parse DIALOG_NO project_world [''-Iinc''] example_flag_path
     = Inr [''-I/proj/inc'']
   \<and> set [''-I/proj/inc''] \<noteq> set [''-Iinc'']"
proof -
  have p: "parse_lines (dirname example_flag_path) False (readlines (flags_text [''-Iinc''])) []
             = [''-I/proj/inc'']"
    by code_simp
  show ?thesis
    by (simp add: overwrite_then_parse_written [OF example_writable(1)] p)
qed

lemma example_stable:
  "stable_flag ''-DFOO=1''" "stable_flag ''-I/abs/include''" "stable_flag ''-isystem/usr/x''"
  by code_simp+

theorem overwrite_then_parse_stable_witness:
  "writable project_world example_flag_path
   \<and> stable_flag ''-DFOO=1'' \<and> stable_flag ''-I/abs/include''
   \<and> stable_flag ''-isystem/usr/x''
   \<and> (\<exists>parsed. overwrite_then_parse DIALOG_NO project_world
                  [''-DFOO=1'', ''-I/abs/include'', ''-isystem/usr/x''] example_flag_path
                = Inr parsed
          \<and> set parsed = set [''-DFOO=1'', ''-I/abs/include'', ''-isystem/usr/x''])"
proof -
  note d = example_writable(1)
  have s: "\<forall>f\<in>set [''-DFOO=1'', ''-I/abs/include'', ''-isystem/usr/x'']. stable_flag f"
    using example_stable by simp
  from d example_stable overwrite_then_parse_stable [OF d s, of DIALOG_NO] show ?thesis
    by blast
qed
section \<open>Properties of the constructor\<close>


lemma File_search_unset:
  "fr = None \<or> t = None \<Longrightarrow> File_search w file_name fr t search_content = File_empty"
  by (auto simp: File_search_def split: option.splits)

lemma candidate_files: "files w = files w' \<Longrightarrow> candidate w = candidate w'"
  by (intro ext) (simp add: candidate_def)

lemma File_search_files:
  assumes "files w = files w'"
  shows "File_search w n f t c = File_search w' n f t c"
  unfolding File_search_def candidate_files [OF assms] ..

lemma File_search_log_msg [simp]:
  "File_search (log_msg lvl msg w) n f t c = File_search w n f t c"
  by (rule File_search_files) simp

lemma was_modified_unloaded: "\<not> loaded f \<Longrightarrow> was_modified w f = (False, f)"
  by (simp add: was_modified_def loaded_def)

lemma not_loaded_File_empty [simp]: "\<not> loaded File_empty"
  by (simp add: loaded_def File_empty_def)

lemma get_flags_unset_scope:
  assumes "from_folder (search_scope m) = None \<or> to_folder (search_scope m) = None"
    and "cmake_file m = File_empty" and "clang_complete_file m = File_empty"
  shows "\<exists>w'. get_flags ev sep w m = Inr (flags m, m, w')
           \<and> files w' = files w \<and> dirs w' = dirs w \<and> now w' = now w"
proof -
  have c: "File_search w' n (from_folder (search_scope m)) (to_folder (search_scope m)) sc
             = File_empty" for w' n sc
    using assms(1) by (rule File_search_unset)
  have 1: "\<exists>w1. find_cmake_file w m = (m, w1) \<and> files w1 = files w \<and> dirs w1 = dirs w
             \<and> now w1 = now w"
    using assms(2) by (auto simp: find_cmake_file_def Let_def c)
  then obtain w1 where w1: "find_cmake_file w m = (m, w1)" "files w1 = files w"
      "dirs w1 = dirs w" "now w1 = now w"
    by blast
  have 2: "update_clang_file ev w1 m = Inr (m, w1)"
    using assms(2) by (simp add: update_clang_file_def was_modified_unloaded)
  have 3: "\<exists>w3. find_clang_complete_file w1 m = (m, w3) \<and> files w3 = files w1
             \<and> dirs w3 = dirs w1 \<and> now w3 = now w1"
    using assms(3) by (auto simp: find_clang_complete_file_def Let_def c)
  then obtain w3 where w3: "find_clang_complete_file w1 m = (m, w3)" "files w3 = files w1"
      "dirs w3 = dirs w1" "now w3 = now w1"
    by blast
  have 4: "reload_flags sep w3 m = Inr (m, w3)"
    using assms(3) by (simp add: reload_flags_def was_modified_unloaded)
  have "get_flags ev sep w m = Inr (flags m, m, w3)"
    using w1(1) 2 w3(1) 4 by (simp add: get_flags_def)
  with w1 w3 show ?thesis by simp
qed

text \<open>
  Claim C10.  Constructing a manager with a search scope of which a bound is unset does not
  fail: the constructor logs one error, stores the scope, the switch and the strategy as
  given, and leaves the files alone.  A call of \<open>get_flags\<close> on that manager returns (the
  empty list of a new manager), finds no file, changes neither the manager nor any file,
  and so does every later call.
\<close>

theorem FlagsManager_init_invalid_scope:
  assumes "from_folder scope = None \<or> to_folder scope = None"
  shows "\<not> valid scope
       \<and> (\<exists>m w1. FlagsManager_init w use_cmake_arg strategy scope = (m, w1)
             \<and> search_scope m = scope \<and> use_cmake m = use_cmake_arg
             \<and> flags_update_strategy m = strategy
             \<and> log w1 = log w @ [(ERROR, '' search scope is wrong.'')]
             \<and> files w1 = files w \<and> dirs w1 = dirs w \<and> now w1 = now w
             \<and> (\<exists>w2. get_flags ev separate_includes w1 m = Inr ([], m, w2)
                    \<and> files w2 = files w \<and> dirs w2 = dirs w \<and> now w2 = now w))"
proof -
  have nv: "\<not> valid scope" using assms by (auto simp: valid_def is_set_def)
  let ?m = "\<lparr>cmake_file = File_empty, clang_complete_file = File_empty, flags = [],
             search_scope = scope, use_cmake = use_cmake_arg,
             flags_update_strategy = strategy\<rparr>"
  let ?w1 = "log_msg ERROR '' search scope is wrong.'' w"
  have i: "FlagsManager_init w use_cmake_arg strategy scope = (?m, ?w1)"
    using nv by (simp add: FlagsManager_init_def)
  have "from_folder (search_scope ?m) = None \<or> to_folder (search_scope ?m) = None"
    using assms by simp
  from get_flags_unset_scope [OF this, of ev separate_includes ?w1]
  obtain w2 where "get_flags ev separate_includes ?w1 ?m = Inr ([], ?m, w2)"
      "files w2 = files w" "dirs w2 = dirs w" "now w2 = now w"
    by auto
  with i nv show ?thesis by (auto simp: log_msg_def)
qed

theorem FlagsManager_init_invalid_scope_witness:
  "\<not> valid \<lparr>from_folder = None, to_folder = Some ''/proj''\<rparr>
   \<and> (\<exists>m w1 w2. FlagsManager_init (world_with [(example_flag_path, ''-DOLD'')]) True ''ask''
                   \<lparr>from_folder = None, to_folder = Some ''/proj''\<rparr> = (m, w1)
         \<and> log w1 = [(ERROR, '' search scope is wrong.'')]
         \<and> get_flags example_env False w1 m = Inr ([], m, w2))"
proof -
  let ?scope = "\<lparr>from_folder = None, to_folder = Some ''/proj''\<rparr>"
  have h: "from_folder ?scope = None \<or> to_folder ?scope = None" by simp
  have l: "log (world_with [(example_flag_path, ''-DOLD'')]) = []" by (simp add: world_with_def)
  from FlagsManager_init_invalid_scope
         [OF h, of "world_with [(example_flag_path, ''-DOLD'')]" True "''ask''" example_env False]
  show ?thesis unfolding l by (elim conjE exE) (auto simp del: split_paired_Ex)
qed


section \<open>Properties of the orchestrator\<close>

lemma same_files_refl [simp]: "same_files w w"
  by (simp add: same_files_def)

lemma same_files_log_msg [simp]: "same_files w (log_msg lvl msg w') = same_files w w'"
  by (simp add: same_files_def)

lemma same_files_trans: "same_files w w' \<Longrightarrow> same_files w' w'' \<Longrightarrow> same_files w w''"
  by (simp add: same_files_def)

lemma was_modified_files: "files w = files w' \<Longrightarrow> was_modified w f = was_modified w' f"
  by (simp add: was_modified_def split: option.splits)

lemma was_modified_log_msg [simp]: "was_modified (log_msg lvl msg w) f = was_modified w f"
  by (rule was_modified_files) simp

lemma was_modified_settles:
  "was_modified w f = (b, f') \<Longrightarrow> was_modified w f' = (False, f') \<and> full_path f' = full_path f"
  by (auto simp: was_modified_def split: option.splits if_splits)

lemma was_modified_False: "was_modified w f = (False, f') \<Longrightarrow> f' = f"
  by (auto simp: was_modified_def split: option.splits if_splits)

lemma was_modified_True:
  "was_modified w f = (True, f') \<Longrightarrow>
   \<exists>p e. full_path f = Some p \<and> files w p = Some e \<and> f' = f\<lparr>last_seen := mtime e\<rparr>"
  by (auto simp: was_modified_def split: option.splits if_splits)

lemma settled_files: "files w = files w' \<Longrightarrow> settled w m = settled w' m"
  unfolding settled_def
  using was_modified_files [of w w'] File_search_files [of w w'] by simp

lemma update_same [simp]:
  "m\<lparr>cmake_file := cmake_file m\<rparr> = m" "m\<lparr>clang_complete_file := clang_complete_file m\<rparr> = m"
  by simp_all

lemma settled_get_flags:
  assumes "settled w m"
  shows "\<exists>w'. get_flags ev sep w m = Inr (flags m, m, w') \<and> same_files w w'"
proof -
  have 1: "\<exists>w1. find_cmake_file w m = (m, w1) \<and> same_files w w1"
    using assms by (auto simp: find_cmake_file_def settled_def Let_def)
  then obtain w1 where w1: "find_cmake_file w m = (m, w1)" "same_files w w1" by blast
  then have f1: "files w1 = files w" by (simp add: same_files_def)
  have s1: "settled w1 m" using assms settled_files [OF f1] by simp
  have c: "use_cmake m \<Longrightarrow> was_modified w1 (cmake_file m) = (False, cmake_file m)"
    using s1 by (cases "loaded (cmake_file m)") (auto simp: settled_def was_modified_unloaded)
  have 2: "update_clang_file ev w1 m = Inr (m, w1)"
    using c by (cases "use_cmake m") (simp_all add: update_clang_file_def)
  have 3: "\<exists>w3. find_clang_complete_file w1 m = (m, w3) \<and> same_files w1 w3"
    using s1 by (auto simp: find_clang_complete_file_def settled_def Let_def)
  then obtain w3 where w3: "find_clang_complete_file w1 m = (m, w3)" "same_files w1 w3" by blast
  then have f3: "files w3 = files w1" by (simp add: same_files_def)
  have s3: "settled w3 m" using s1 settled_files [OF f3] by simp
  have "was_modified w3 (clang_complete_file m) = (False, clang_complete_file m)"
    using s3 by (cases "loaded (clang_complete_file m)") (auto simp: settled_def was_modified_unloaded)
  then have 4: "reload_flags sep w3 m = Inr (m, w3)"
    by (simp add: reload_flags_def)
  have "get_flags ev sep w m = Inr (flags m, m, w3)"
    using w1(1) 2 w3(1) 4 by (simp add: get_flags_def)
  moreover have "same_files w w3" using w1(2) w3(2) by (rule same_files_trans)
  ultimately show ?thesis by blast
qed

lemma endswith_join:
  "\<not> startswith ''/'' n \<Longrightarrow> endswith n (join d n)"
  by (auto simp: endswith_def join_def startswith_def)

lemma endswith_last: "endswith n s \<Longrightarrow> n \<noteq> [] \<Longrightarrow> s \<noteq> [] \<and> last s = last n"
proof -
  assume e: "endswith n s" and n: "n \<noteq> []"
  then obtain r where r: "rev s = rev n @ r"
    unfolding endswith_def using startswith_iff by blast
  then have "s = rev r @ n" by (metis rev_append rev_rev_ident)
  with n show ?thesis by simp
qed

lemma cmake_not_clang:
  assumes "endswith CMAKE_FILE_NAME q"
  shows "q \<noteq> join d CLANG_COMPLETE_FILE_NAME"
proof
  assume "q = join d CLANG_COMPLETE_FILE_NAME"
  moreover have "endswith CLANG_COMPLETE_FILE_NAME (join d CLANG_COMPLETE_FILE_NAME)"
    by (rule endswith_join) (simp add: CLANG_COMPLETE_FILE_NAME_def startswith_def)
  ultimately have "endswith CLANG_COMPLETE_FILE_NAME q" by simp
  then have "last q = last CLANG_COMPLETE_FILE_NAME"
    using endswith_last [of CLANG_COMPLETE_FILE_NAME q] by (simp add: CLANG_COMPLETE_FILE_NAME_def)
  moreover have "last q = last CMAKE_FILE_NAME"
    using endswith_last [OF assms] by (simp add: CMAKE_FILE_NAME_def)
  ultimately show False by (simp add: CLANG_COMPLETE_FILE_NAME_def CMAKE_FILE_NAME_def)
qed

lemma File_search_path:
  "File_search w n f t c = File_empty
   \<or> (\<exists>d. File_search w n f t c = \<lparr>full_path = Some (join d n), last_seen = 0\<rparr>)"
  by (auto simp: File_search_def split: option.splits)

lemma write_file_frame:
  "write_file w p text = Inr w' \<Longrightarrow> q \<noteq> p \<Longrightarrow> files w' q = files w q"
  by (auto simp: write_file_def split: if_splits)

lemma write_flags_to_file_frame:
  assumes "write_flags_to_file pick w new_flags p strategy = Inr w'" and "q \<noteq> p"
  shows "files w' q = files w q"
proof -
  let ?w2 = "log_msg DEBUG '' picked '%s' strategy.'' (log_msg DEBUG '' path already exists'' w)"
  show ?thesis
  proof (cases "path_exists w p")
    case False
    with assms(1) have "write_file w p (flags_text new_flags) = Inr w'"
      by (simp add: write_flags_to_file_def)
    from write_file_frame [OF this assms(2)] show ?thesis .
  next
    case True
    show ?thesis
    proof (cases "get_flags_strategy pick strategy = ''keep_old''")
      case k: True
      with True assms(1) have "w' = ?w2" by (simp add: write_flags_to_file_def Let_def)
      then show ?thesis by simp
    next
      case nk: False
      show ?thesis
      proof (cases "get_flags_strategy pick strategy = ''merge''")
        case mg: True
        with True nk assms(1) obtain curr_flags w3 where
          r: "flags_from_clang_file ?w2 (File_at ?w2 p) False = Inr (curr_flags, w3)"
          and wr: "write_file w3 p (flags_text (set_union new_flags (set_of_list curr_flags))) = Inr w'"
          by (auto simp: write_flags_to_file_def Let_def split: sum.splits)
        from flags_from_clang_file_frame [OF r] have "files w3 = files w" by simp
        with write_file_frame [OF wr assms(2)] show ?thesis by simp
      next
        case False
        with True nk assms(1) have "write_file ?w2 p (flags_text new_flags) = Inr w'"
          by (simp add: write_flags_to_file_def Let_def)
        from write_file_frame [OF this assms(2)] show ?thesis by simp
      qed
    qed
  qed
qed

lemma reconcile_frame:
  assumes "reconcile ev w new_flags p strategy = Inr w'" and "q \<noteq> p"
  shows "files w' q = files w q"
proof -
  from assms(1) obtain curr_list w1 where
    r: "flags_from_clang_file w (File_at w p) False = Inr (curr_list, w1)"
    by (auto simp: reconcile_def split: sum.splits)
  from flags_from_clang_file_frame [OF r] have f1: "files w1 = files w" by simp
  from assms(1) r obtain nf where nf: "new_flags = Some nf"
    by (auto simp: reconcile_def Let_def split: option.splits)
  show ?thesis
  proof (cases "length (symmetric_difference nf (set_of_list curr_list)) > 0")
    case True
    with assms(1) r nf obtain w2 where
      wr: "write_flags_to_file (user_pick ev) w1 nf p strategy = Inr w2"
      and w': "w' = log_msg DEBUG (CHR 0x27 # ''%s' is not equal to '%s' by %s so update'') w2"
      by (auto simp: reconcile_def Let_def split: sum.splits)
    from write_flags_to_file_frame [OF wr assms(2)] f1 w' show ?thesis by simp
  next
    case False
    with assms(1) r nf f1 show ?thesis
      by (auto simp: reconcile_def Let_def)
  qed
qed

lemma reconcile_unchanged:
  assumes "files w p = Some e"
    and "symmetric_difference new_flags
           (set_of_list (parse_lines (dirname p) False (readlines (content e)) [])) = []"
  shows "\<exists>w'. reconcile ev w (Some new_flags) p strategy = Inr w' \<and> same_files w w'"
proof -
  have "flags_from_clang_file w (File_at w p) False
          = Inr (parse_lines (dirname p) False (readlines (content e)) [],
                 log_msg DEBUG '' .clang_complete contains flags: %s'' w)"
    using flags_from_clang_file_loaded [OF _ assms(1), of "File_at w p" False]
          File_at_existing [OF assms(1)]
    by simp
  with assms(2) show ?thesis by (simp add: reconcile_def Let_def)
qed

lemma flags_from_database_frame:
  "flags_from_database ev w db = Inr (r, w') \<Longrightarrow> same_files w w'"
  by (auto simp: flags_from_database_def split: option.splits sum.splits)

lemma same_files_files: "same_files w w' \<Longrightarrow> files w' = files w"
  by (simp add: same_files_def)

lemma compile_cmake_frame:
  assumes "compile_cmake ev w f = Inr (r, w')"
    and "\<And>cmd cwd fs. files_after (check_output ev cmd cwd fs) q = fs q"
  shows "files w' q = files w q"
proof -
  from assms(1) obtain dir p where "folder f = Some dir" "full_path f = Some p"
    by (auto simp: compile_cmake_def split: option.splits)
  with assms(1) show ?thesis
    by (auto simp: compile_cmake_def Let_def assms(2) makedirs_def split: if_splits)
qed

lemma find_cmake_file_result:
  assumes "find_cmake_file w m = (m1, w1)"
  shows "same_files w w1" "use_cmake m1 = use_cmake m" "search_scope m1 = search_scope m"
    "clang_complete_file m1 = clang_complete_file m" "flags m1 = flags m"
    "flags_update_strategy m1 = flags_update_strategy m"
    "use_cmake m1 \<Longrightarrow> \<not> loaded (cmake_file m1) \<Longrightarrow>
       File_search w1 CMAKE_FILE_NAME (from_folder (search_scope m1))
         (to_folder (search_scope m1)) (Some ''project'') = cmake_file m1"
    "tracks_build_description m \<Longrightarrow> tracks_build_description m1"
proof -
  show "same_files w w1" "use_cmake m1 = use_cmake m" "search_scope m1 = search_scope m"
    "clang_complete_file m1 = clang_complete_file m" "flags m1 = flags m"
    "flags_update_strategy m1 = flags_update_strategy m"
    using assms by (auto simp: find_cmake_file_def Let_def split: if_splits)
  show "use_cmake m1 \<Longrightarrow> \<not> loaded (cmake_file m1) \<Longrightarrow>
       File_search w1 CMAKE_FILE_NAME (from_folder (search_scope m1))
         (to_folder (search_scope m1)) (Some ''project'') = cmake_file m1"
    using assms by (auto simp: find_cmake_file_def Let_def split: if_splits)
  show "tracks_build_description m \<Longrightarrow> tracks_build_description m1"
  proof -
    assume t: "tracks_build_description m"
    have e: "endswith CMAKE_FILE_NAME (join d CMAKE_FILE_NAME)" for d
      by (rule endswith_join) (simp add: CMAKE_FILE_NAME_def startswith_def)
    show ?thesis
    proof (cases "use_cmake m \<and> \<not> loaded (cmake_file m)")
      case True
      let ?s = "File_search (log_msg DEBUG '' cmake file not loaded yet. Searching for one...'' w)
                  CMAKE_FILE_NAME (from_folder (search_scope m)) (to_folder (search_scope m))
                  (Some ''project'')"
      from True assms have m1: "cmake_file m1 = ?s"
        by (auto simp: find_cmake_file_def Let_def)
      from File_search_path [of "log_msg DEBUG '' cmake file not loaded yet. Searching for one...'' w"
             CMAKE_FILE_NAME "from_folder (search_scope m)" "to_folder (search_scope m)" "Some ''project''"]
      show ?thesis unfolding tracks_build_description_def m1
        using e by (auto simp: File_empty_def)
    next
      case False
      with assms have "m1 = m" by (auto simp: find_cmake_file_def)
      with t show ?thesis by simp
    qed
  qed
qed

lemma update_clang_file_fields:
  assumes "update_clang_file ev w m = Inr (m2, w2)"
  shows "use_cmake m2 = use_cmake m" "search_scope m2 = search_scope m"
    "clang_complete_file m2 = clang_complete_file m" "flags m2 = flags m"
    "full_path (cmake_file m2) = full_path (cmake_file m)"
proof -
  obtain b f where wm: "was_modified w (cmake_file m) = (b, f)" by fastforce
  from assms wm have m2: "m2 = m \<or> m2 = m\<lparr>cmake_file := f\<rparr>"
    by (auto simp: update_clang_file_def Let_def
             split: if_splits sum.splits prod.splits option.splits)
  from was_modified_settles [OF wm] have "full_path f = full_path (cmake_file m)" by simp
  with m2 show "use_cmake m2 = use_cmake m" "search_scope m2 = search_scope m"
    "clang_complete_file m2 = clang_complete_file m" "flags m2 = flags m"
    "full_path (cmake_file m2) = full_path (cmake_file m)"
    by auto
qed

lemma update_clang_file_idle:
  assumes "update_clang_file ev w m = Inr (m2, w2)"
    and "\<not> use_cmake m \<or> \<not> loaded (cmake_file m)"
  shows "m2 = m \<and> w2 = w"
proof (cases "use_cmake m")
  case False
  with assms(1) show ?thesis by (simp add: update_clang_file_def)
next
  case True
  with assms(2) have "was_modified w (cmake_file m) = (False, cmake_file m)"
    by (simp add: was_modified_unloaded)
  with True assms(1) show ?thesis by (simp add: update_clang_file_def Let_def)
qed

lemma update_clang_file_settles:
  assumes "update_clang_file ev w m = Inr (m2, w2)"
    and "use_cmake m" and "loaded (cmake_file m)" and "tracks_build_description m"
    and tool: "\<And>cmd cwd fs q. endswith CMAKE_FILE_NAME q
                 \<Longrightarrow> files_after (check_output ev cmd cwd fs) q = fs q"
  shows "was_modified w2 (cmake_file m2) = (False, cmake_file m2)"
proof -
  obtain b f where wm: "was_modified w (cmake_file m) = (b, f)" by fastforce
  from assms(3) obtain p where p: "full_path (cmake_file m) = Some p"
    by (auto simp: loaded_def)
  with assms(4) have ep: "endswith CMAKE_FILE_NAME p"
    by (simp add: tracks_build_description_def)
  from was_modified_settles [OF wm] have st: "was_modified w f = (False, f)"
    and fp: "full_path f = Some p" using p by simp_all
  show ?thesis
  proof (cases b)
    case False
    with assms(1,2) wm have "m2 = m\<lparr>cmake_file := f\<rparr>" "w2 = w"
      by (auto simp: update_clang_file_def Let_def)
    with st show ?thesis by simp
  next
    case True
    let ?w1 = "log_msg DEBUG '' CMakeLists.txt was modified. Generate new .clang_complete'' w"
    from True assms(1,2) wm have m2: "m2 = m\<lparr>cmake_file := f\<rparr>"
      by (auto simp: update_clang_file_def Let_def
               split: sum.splits prod.splits option.splits)
    have keep: "files w2 p = files w p"
    proof -
      from True assms(1,2) wm obtain r w' where cc: "compile_cmake ev ?w1 f = Inr (r, w')"
        by (auto simp: update_clang_file_def Let_def split: sum.splits)
      from compile_cmake_frame [OF cc tool [OF ep]] have f': "files w' p = files w p" by simp
      show ?thesis
      proof (cases r)
        case None
        with True assms(1,2) wm cc have "same_files w' w2"
          by (auto simp: update_clang_file_def Let_def)
        with f' show ?thesis by (simp add: same_files_def)
      next
        case (Some db)
        with True assms(1,2) wm cc obtain nf w3 dir w4 where
          db: "flags_from_database ev w' db = Inr (nf, w3)"
          and rc: "reconcile ev w3 nf (join dir CLANG_COMPLETE_FILE_NAME)
                     (flags_update_strategy (m\<lparr>cmake_file := f\<rparr>)) = Inr w4"
          and w2: "w2 = w4"
          by (auto simp: update_clang_file_def Let_def split: sum.splits option.splits)
        from flags_from_database_frame [OF db] have "files w3 = files w'"
          by (simp add: same_files_def)
        moreover from reconcile_frame [OF rc cmake_not_clang [OF ep]]
        have "files w4 p = files w3 p" .
        ultimately show ?thesis using f' w2 by simp
      qed
    qed
    have "was_modified w2 f = (False, f)"
      using st fp keep by (auto simp: was_modified_def split: option.splits if_splits)
    with m2 show ?thesis by simp
  qed
qed

lemma find_clang_complete_file_result:
  assumes "find_clang_complete_file w m = (m3, w3)"
  shows "same_files w w3" "use_cmake m3 = use_cmake m" "search_scope m3 = search_scope m"
    "cmake_file m3 = cmake_file m" "flags m3 = flags m"
    "\<not> loaded (clang_complete_file m3) \<Longrightarrow>
       File_search w3 CLANG_COMPLETE_FILE_NAME (from_folder (search_scope m3))
         (to_folder (search_scope m3)) None = clang_complete_file m3"
  using assms by (auto simp: find_clang_complete_file_def Let_def split: if_splits)

lemma reload_flags_result:
  assumes wm: "was_modified w (clang_complete_file m) = (b, f)"
  shows "\<exists>m4 w4. reload_flags sep w m = Inr (m4, w4) \<and> same_files w w4
      \<and> clang_complete_file m4 = f \<and> cmake_file m4 = cmake_file m
      \<and> use_cmake m4 = use_cmake m \<and> search_scope m4 = search_scope m
      \<and> (\<not> b \<longrightarrow> flags m4 = flags m)"
proof (cases b)
  case False
  with wm show ?thesis by (simp add: reload_flags_def)
next
  case True
  with wm have "was_modified w (clang_complete_file m) = (True, f)" by simp
  from was_modified_True [OF this] obtain p e where
    p: "full_path (clang_complete_file m) = Some p" "files w p = Some e"
       "f = (clang_complete_file m)\<lparr>last_seen := mtime e\<rparr>"
    by blast
  then have fp: "full_path f = Some p" by simp
  let ?w1 = "log_msg DEBUG '' .clang_complete modified. Load new flags.'' w"
  have "files ?w1 p = Some e" using p(2) by simp
  from flags_from_clang_file_loaded [OF fp this, of sep] True wm
  show ?thesis by (simp add: reload_flags_def)
qed

lemma get_flags_settles:
  assumes "get_flags ev sep w m = Inr (fl, m', w')"
    and "tracks_build_description m"
    and tool: "\<And>cmd cwd fs q. endswith CMAKE_FILE_NAME q
                 \<Longrightarrow> files_after (check_output ev cmd cwd fs) q = fs q"
  shows "settled w' m' \<and> fl = flags m' \<and> tracks_build_description m'"
proof -
  obtain m1 w1 where s1: "find_cmake_file w m = (m1, w1)" by fastforce
  from assms(1) s1 obtain m2 w2 where s2: "update_clang_file ev w1 m1 = Inr (m2, w2)"
    by (auto simp: get_flags_def split: sum.splits)
  obtain m3 w3 where s3: "find_clang_complete_file w2 m2 = (m3, w3)" by fastforce
  obtain b f where wm: "was_modified w3 (clang_complete_file m3) = (b, f)" by fastforce
  from reload_flags_result [OF wm, of sep] obtain m4 w4 where
    s4: "reload_flags sep w3 m3 = Inr (m4, w4)" and sf4: "same_files w3 w4"
    and m4: "clang_complete_file m4 = f" "cmake_file m4 = cmake_file m3"
            "use_cmake m4 = use_cmake m3" "search_scope m4 = search_scope m3"
    by blast
  from assms(1) s1 s2 s3 s4 have res: "fl = flags m4" "m' = m4" "w' = w4"
    by (auto simp: get_flags_def)
  note r1 = find_cmake_file_result [OF s1]
  note r2 = update_clang_file_fields [OF s2]
  note r3 = find_clang_complete_file_result [OF s3]
  have t1: "tracks_build_description m1" using r1(8) assms(2) .
  have t4: "tracks_build_description m4"
    using t1 r2(5) r3(4) m4(2) by (simp add: tracks_build_description_def)
  have f42: "files w4 = files w2"
    using r3(1) sf4 by (simp add: same_files_def)
  have scope: "search_scope m4 = search_scope m1" "use_cmake m4 = use_cmake m1"
    using m4 r3 r2 by simp_all
  have cm: "cmake_file m4 = cmake_file m2" using m4(2) r3(4) by simp
  have cmake_part: "if loaded (cmake_file m4)
      then was_modified w4 (cmake_file m4) = (False, cmake_file m4)
      else File_search w4 CMAKE_FILE_NAME (from_folder (search_scope m4))
             (to_folder (search_scope m4)) (Some ''project'') = cmake_file m4"
    if uc: "use_cmake m4"
  proof (cases "loaded (cmake_file m1)")
    case True
    from uc scope have uc1: "use_cmake m1" by simp
    from update_clang_file_settles [OF s2 uc1 True t1 tool]
    have "was_modified w2 (cmake_file m2) = (False, cmake_file m2)" by simp
    then have "was_modified w4 (cmake_file m4) = (False, cmake_file m4)"
      using was_modified_files [OF f42] cm by simp
    moreover have "loaded (cmake_file m4)" using True r2(5) cm by (simp add: loaded_def)
    ultimately show ?thesis by simp
  next
    case False
    from uc scope have uc1: "use_cmake m1" by simp
    from update_clang_file_idle [OF s2] False have eq: "m2 = m1" "w2 = w1" by simp_all
    from r1(7) [OF uc1 False] have "File_search w1 CMAKE_FILE_NAME (from_folder (search_scope m1))
         (to_folder (search_scope m1)) (Some ''project'') = cmake_file m1" .
    then have "File_search w4 CMAKE_FILE_NAME (from_folder (search_scope m4))
         (to_folder (search_scope m4)) (Some ''project'') = cmake_file m4"
      using File_search_files [OF f42] eq scope cm by simp
    moreover have "\<not> loaded (cmake_file m4)" using False eq cm by simp
    ultimately show ?thesis by simp
  qed
  have clang_part: "if loaded (clang_complete_file m4)
      then was_modified w4 (clang_complete_file m4) = (False, clang_complete_file m4)
      else File_search w4 CLANG_COMPLETE_FILE_NAME (from_folder (search_scope m4))
             (to_folder (search_scope m4)) None = clang_complete_file m4"
  proof (cases "loaded (clang_complete_file m3)")
    case True
    from was_modified_settles [OF wm] have "was_modified w3 f = (False, f)"
      "full_path f = full_path (clang_complete_file m3)" by simp_all
    moreover have "files w3 = files w4" using sf4 by (simp add: same_files_def)
    ultimately have "was_modified w4 f = (False, f)" "loaded f"
      using was_modified_files [of w3 w4 f] True by (simp_all add: loaded_def)
    with m4(1) show ?thesis by simp
  next
    case False
    with wm have "f = clang_complete_file m3" "\<not> loaded f"
      by (simp_all add: was_modified_unloaded)
    moreover have "files w4 = files w3" using sf4 by (simp add: same_files_def)
    moreover note r3(6) [OF False]
    ultimately show ?thesis
      using File_search_files [of w4 w3] m4 by simp
  qed
  from cmake_part clang_part have "settled w4 m4" by (simp add: settled_def)
  with res t4 show ?thesis by simp
qed

lemma first_call:
  "observe [''/proj/.clang_complete'']
         (get_flags project_env False project_world project_manager)
   = Inr ([''-I/proj/inc'', ''-DFOO=1''],
          project_manager\<lparr>cmake_file := \<lparr>full_path = Some ''/proj/CMakeLists.txt'', last_seen = 1\<rparr>,
             clang_complete_file := \<lparr>full_path = Some ''/proj/.clang_complete'', last_seen = 3\<rparr>,
             flags := [''-I/proj/inc'', ''-DFOO=1'']\<rparr>,
          [Some \<lparr>content = ''-I/proj/inc'' @ [newline] @ ''-DFOO=1'' @ [newline], mtime = 3\<rparr>], 3)"
  by code_simp

lemma cmake_not_db:
  assumes "endswith CMAKE_FILE_NAME q"
  shows "q \<noteq> join d CMAKE_DB_FILE_NAME"
proof
  assume "q = join d CMAKE_DB_FILE_NAME"
  moreover have "endswith CMAKE_DB_FILE_NAME (join d CMAKE_DB_FILE_NAME)"
    by (rule endswith_join) (simp add: CMAKE_DB_FILE_NAME_def startswith_def)
  ultimately have "endswith CMAKE_DB_FILE_NAME q" by simp
  then have "last q = last CMAKE_DB_FILE_NAME"
    using endswith_last [of CMAKE_DB_FILE_NAME q] by (simp add: CMAKE_DB_FILE_NAME_def)
  moreover have "last q = last CMAKE_FILE_NAME"
    using endswith_last [OF assms] by (simp add: CMAKE_FILE_NAME_def)
  ultimately show False by (simp add: CMAKE_DB_FILE_NAME_def CMAKE_FILE_NAME_def)
qed

lemma project_tool:
  "endswith CMAKE_FILE_NAME q \<Longrightarrow> files_after (check_output project_env cmd cwd fs) q = fs q"
  using cmake_not_db [of q cwd] by (simp add: project_env_def project_check_output_def)

text \<open>
  Claim C1.  After a call of \<open>get_flags\<close> that returned, a second call on the manager and
  the world the first one left, with either value of \<open>separate_includes\<close>, returns the
  same list, leaves the manager as it is and writes nothing: files, directories and clock
  are unchanged.  The manager is one that a constructor and earlier calls can produce, and
  the build tool does not touch a \<open>CMakeLists.txt\<close>.
\<close>

theorem get_flags_idempotent:
  assumes "get_flags ev separate_includes w m = Inr (fl, m', w')"
    and "tracks_build_description m"
    and "\<And>cmd cwd fs q. endswith CMAKE_FILE_NAME q
           \<Longrightarrow> files_after (check_output ev cmd cwd fs) q = fs q"
  shows "\<exists>w''. get_flags ev separate_includes' w' m' = Inr (fl, m', w'')
           \<and> files w'' = files w' \<and> dirs w'' = dirs w' \<and> now w'' = now w'"
proof -
  from get_flags_settles [OF assms(1,2) assms(3)]
  have "settled w' m'" and "fl = flags m'" by simp_all
  with settled_get_flags [of w' m' ev separate_includes'] show ?thesis
    by (auto simp: same_files_def)
qed

theorem get_flags_idempotent_witness:
  "tracks_build_description project_manager
   \<and> (\<exists>m' w' w''. get_flags project_env False project_world project_manager
                    = Inr ([''-I/proj/inc'', ''-DFOO=1''], m', w')
         \<and> files w' ''/proj/.clang_complete''
              = Some \<lparr>content = flags_text [''-I/proj/inc'', ''-DFOO=1''], mtime = 3\<rparr>
         \<and> get_flags project_env True w' m' = Inr ([''-I/proj/inc'', ''-DFOO=1''], m', w'')
         \<and> files w'' = files w' \<and> dirs w'' = dirs w' \<and> now w'' = now w')"
proof -
  have t: "tracks_build_description project_manager"
    by (simp add: tracks_build_description_def project_manager_def File_empty_def)
  obtain fl m' w' where
    r: "get_flags project_env False project_world project_manager = Inr (fl, m', w')"
    using first_call
    by (cases "get_flags project_env False project_world project_manager")
       (auto simp: observe_def)
  with first_call have fl: "fl = [''-I/proj/inc'', ''-DFOO=1'']"
    and f: "files w' ''/proj/.clang_complete''
              = Some \<lparr>content = ''-I/proj/inc'' @ [newline] @ ''-DFOO=1'' @ [newline], mtime = 3\<rparr>"
    by (simp_all add: observe_def)
  have ft: "flags_text [''-I/proj/inc'', ''-DFOO=1'']
              = ''-I/proj/inc'' @ [newline] @ ''-DFOO=1'' @ [newline]"
    by (simp add: flags_text_def)
  from get_flags_idempotent [OF r t project_tool, of True] obtain w'' where
    "get_flags project_env True w' m' = Inr (fl, m', w'')"
    "files w'' = files w'" "dirs w'' = dirs w'" "now w'' = now w'"
    by blast
  with r fl f ft t show ?thesis by auto
qed

lemma FlagsManager_init_tracks:
  "tracks_build_description (fst (FlagsManager_init w u s sc))"
  by (simp add: FlagsManager_init_def tracks_build_description_def File_empty_def Let_def)

lemma find_cmake_file_loaded:
  "\<not> use_cmake m \<or> loaded (cmake_file m) \<Longrightarrow> find_cmake_file w m = (m, w)"
  by (auto simp: find_cmake_file_def)

text \<open>
  Claim C2.  When the build description was modified, the build tool left a database, and
  the flags of the database differ in nothing from the flags parsed without include
  separation from the flag-list file beside the build description, then \<open>get_flags\<close>
  returns and writes nothing after the build tool has run: the flag-list file keeps its
  content and its modification time.
\<close>

theorem get_flags_unchanged_flags_no_write:
  assumes "use_cmake m" and "full_path (cmake_file m) = Some c"
    and "was_modified w (cmake_file m) = (True, f)"
    and "compile_cmake ev
           (log_msg DEBUG '' CMakeLists.txt was modified. Generate new .clang_complete'' w) f
         = Inr (Some db, w2)"
    and "flags_from_database ev w2 db = Inr (Some new_flags, w3)"
    and "p = join (dirname c) CLANG_COMPLETE_FILE_NAME"
    and "files w2 p = Some e"
    and "symmetric_difference new_flags
           (set_of_list (parse_lines (dirname p) False (readlines (content e)) [])) = []"
  shows "\<exists>fl m' w'. get_flags ev separate_includes w m = Inr (fl, m', w')
           \<and> files w' = files w2 \<and> dirs w' = dirs w2 \<and> now w' = now w2
           \<and> files w' p = Some e"
proof -
  have l: "loaded (cmake_file m)" using assms(2) by (simp add: loaded_def)
  have s1: "find_cmake_file w m = (m, w)" using l by (simp add: find_cmake_file_loaded)
  from was_modified_settles [OF assms(3)] assms(2) have fp: "full_path f = Some c" by simp
  then have fo: "folder f = Some (dirname c)" by (simp add: folder_def)
  from flags_from_database_frame [OF assms(5)] have sf3: "same_files w2 w3" .
  then have "files w3 p = Some e" using assms(7) by (simp add: same_files_def)
  from reconcile_unchanged [OF this assms(8), of ev "flags_update_strategy (m\<lparr>cmake_file := f\<rparr>)"]
  obtain w4 where rc: "reconcile ev w3 (Some new_flags) p
                         (flags_update_strategy (m\<lparr>cmake_file := f\<rparr>)) = Inr w4"
    and sf4: "same_files w3 w4"
    by blast
  have s2: "update_clang_file ev w m = Inr (m\<lparr>cmake_file := f\<rparr>, w4)"
    using assms(1,3,4,5) fo rc unfolding assms(6)
    by (simp add: update_clang_file_def Let_def)
  obtain m3 w5 where s3: "find_clang_complete_file w4 (m\<lparr>cmake_file := f\<rparr>) = (m3, w5)"
    by fastforce
  from find_clang_complete_file_result(1) [OF s3] have sf5: "same_files w4 w5" .
  obtain b g where wm: "was_modified w5 (clang_complete_file m3) = (b, g)" by fastforce
  from reload_flags_result [OF wm, of separate_includes] obtain m4 w6 where
    s4: "reload_flags separate_includes w5 m3 = Inr (m4, w6)" and sf6: "same_files w5 w6"
    by blast
  have "get_flags ev separate_includes w m = Inr (flags m4, m4, w6)"
    using s1 s2 s3 s4 by (simp add: get_flags_def)
  moreover have "same_files w2 w6"
    using sf3 sf4 sf5 sf6 by (blast intro: same_files_trans)
  ultimately show ?thesis using assms(7) by (auto simp: same_files_def)
qed

lemma project_compile:
  "observe_db [''/tmp/cmake_builds/0f/compile_commands.json'', ''/proj/.clang_complete'']
     (compile_cmake project_env
        (log_msg DEBUG '' CMakeLists.txt was modified. Generate new .clang_complete''
           project_world_with_flags)
        \<lparr>full_path = Some ''/proj/CMakeLists.txt'', last_seen = 1\<rparr>)
   = Inr (Some \<lparr>full_path = Some ''/tmp/cmake_builds/0f/compile_commands.json'', last_seen = 0\<rparr>,
          [Some \<lparr>content = project_db_text, mtime = 2\<rparr>,
           Some \<lparr>content = project_flag_text, mtime = 1\<rparr>])"
  by code_simp

lemma project_flags:
  "flags_from_data (JArr [JObj [(''command'', JStr project_command)]])
     = Inr (Some [''-I/proj/inc'', ''-DFOO=1''])"
  by code_simp

lemma project_difference:
  "symmetric_difference [''-I/proj/inc'', ''-DFOO=1'']
     (set_of_list (parse_lines (dirname (join (dirname ''/proj/CMakeLists.txt'')
                                           CLANG_COMPLETE_FILE_NAME))
                     False (readlines project_flag_text) [])) = []"
  by code_simp

lemma project_flag_path:
  "join (dirname ''/proj/CMakeLists.txt'') CLANG_COMPLETE_FILE_NAME = ''/proj/.clang_complete''"
  by code_simp

theorem get_flags_unchanged_flags_no_write_witness:
  "\<exists>fl m' w'. get_flags project_env False project_world_with_flags project_manager_loaded
                 = Inr (fl, m', w')
     \<and> files w' ''/proj/.clang_complete'' = Some \<lparr>content = project_flag_text, mtime = 1\<rparr>"
proof -
  let ?w = project_world_with_flags
  let ?m = project_manager_loaded
  let ?f = "\<lparr>full_path = Some ''/proj/CMakeLists.txt'', last_seen = 1\<rparr>"
  let ?p = "join (dirname ''/proj/CMakeLists.txt'') CLANG_COMPLETE_FILE_NAME"
  let ?e = "\<lparr>content = project_flag_text, mtime = 1\<rparr>"
  have 1: "use_cmake ?m" by (simp add: project_manager_loaded_def project_manager_def)
  have 2: "full_path (cmake_file ?m) = Some ''/proj/CMakeLists.txt''"
    by (simp add: project_manager_loaded_def)
  have 3: "was_modified ?w (cmake_file ?m) = (True, ?f)"
    by (simp add: project_manager_loaded_def was_modified_def project_world_with_flags_def
          world_with_def)
  obtain db w2 where
    cc: "compile_cmake project_env
           (log_msg DEBUG '' CMakeLists.txt was modified. Generate new .clang_complete'' ?w) ?f
         = Inr (db, w2)"
    using project_compile
    by (cases "compile_cmake project_env
           (log_msg DEBUG '' CMakeLists.txt was modified. Generate new .clang_complete'' ?w) ?f")
       (auto simp: observe_db_def)
  with project_compile have
    db: "db = Some \<lparr>full_path = Some ''/tmp/cmake_builds/0f/compile_commands.json'', last_seen = 0\<rparr>"
    and fdb: "files w2 ''/tmp/cmake_builds/0f/compile_commands.json''
                = Some \<lparr>content = project_db_text, mtime = 2\<rparr>"
    and ffl: "files w2 ''/proj/.clang_complete'' = Some ?e"
    by (simp_all add: observe_db_def)
  let ?db = "\<lparr>full_path = Some ''/tmp/cmake_builds/0f/compile_commands.json'', last_seen = 0\<rparr>"
  have 4: "compile_cmake project_env
           (log_msg DEBUG '' CMakeLists.txt was modified. Generate new .clang_complete'' ?w) ?f
         = Inr (Some ?db, w2)"
    using cc db by simp
  have jl: "json_load project_env (content \<lparr>content = project_db_text, mtime = 2\<rparr>)
              = Some (JArr [JObj [(''command'', JStr project_command)]])"
    by (simp add: project_env_def project_json_load_def)
  have 5: "flags_from_database project_env w2 ?db
             = Inr (Some [''-I/proj/inc'', ''-DFOO=1''], log_msg DEBUG '' flags set: %s'' w2)"
    using flags_from_database_data [OF _ fdb jl, of ?db] project_flags by simp
  have 7: "files w2 ?p = Some ?e" using ffl by (simp only: project_flag_path)
  have 8: "symmetric_difference [''-I/proj/inc'', ''-DFOO=1'']
             (set_of_list (parse_lines (dirname ?p) False (readlines (content ?e)) [])) = []"
    using project_difference by simp
  from get_flags_unchanged_flags_no_write [OF 1 2 3 4 5 refl 7 8, of False]
  show ?thesis by (auto simp: project_flag_path)
qed

text \<open>
  When \<open>flags_from_database\<close> has returned \<open>None\<close>, the gate does not return: the call of
  \<open>symmetric_difference\<close> on \<open>None\<close> raises.
\<close>

lemma reconcile_None_raises: "reconcile ev w None p strategy = Inl AttributeError"
proof (cases "files w p")
  case None
  then have "flags_from_clang_file w (File_at w p) False
               = Inr ([], log_msg ERROR '' cannot get flags from clang_complete_file. No file.'' w)"
    by (simp add: flags_from_clang_file_def File_at_def)
  then show ?thesis by (simp add: reconcile_def)
next
  case (Some e)
  from flags_from_clang_file_loaded [OF _ Some, of "File_at w p" False] File_at_existing [OF Some]
  show ?thesis by (simp add: reconcile_def)
qed


end
